theory Spec2Isabelle
  imports Complex_Main
begin

section \<open>JavaScript numbers\<close>

text \<open>
  The simulations compute with JavaScript numbers. A number is modelled as a finite
  value, one of the two infinities, or NaN. Finite arithmetic is exact (no rounding and
  no overflow), zero is unsigned and counts as \<open>+0\<close>; the special values follow
  IEEE 754 as JavaScript does: \<open>Infinity - Infinity\<close>, \<open>0 * Infinity\<close> and
  \<open>0 / 0\<close> are NaN, \<open>x / 0\<close> is an infinity, every comparison with NaN is false.
\<close>

datatype jsnum = Fin real | PInf | NInf | NaN

fun js_neg :: "jsnum \<Rightarrow> jsnum" where
  "js_neg (Fin a) = Fin (- a)"
| "js_neg PInf = NInf"
| "js_neg NInf = PInf"
| "js_neg NaN = NaN"

fun js_add :: "jsnum \<Rightarrow> jsnum \<Rightarrow> jsnum" where
  "js_add NaN _ = NaN"
| "js_add _ NaN = NaN"
| "js_add (Fin a) (Fin b) = Fin (a + b)"
| "js_add PInf NInf = NaN"
| "js_add NInf PInf = NaN"
| "js_add PInf _ = PInf"
| "js_add _ PInf = PInf"
| "js_add NInf _ = NInf"
| "js_add _ NInf = NInf"

definition js_sub :: "jsnum \<Rightarrow> jsnum \<Rightarrow> jsnum" where
  "js_sub a b = js_add a (js_neg b)"

fun js_mul :: "jsnum \<Rightarrow> jsnum \<Rightarrow> jsnum" where
  "js_mul NaN _ = NaN"
| "js_mul _ NaN = NaN"
| "js_mul (Fin a) (Fin b) = Fin (a * b)"
| "js_mul (Fin a) PInf = (if a = 0 then NaN else if 0 < a then PInf else NInf)"
| "js_mul (Fin a) NInf = (if a = 0 then NaN else if 0 < a then NInf else PInf)"
| "js_mul PInf (Fin b) = (if b = 0 then NaN else if 0 < b then PInf else NInf)"
| "js_mul NInf (Fin b) = (if b = 0 then NaN else if 0 < b then NInf else PInf)"
| "js_mul PInf PInf = PInf"
| "js_mul PInf NInf = NInf"
| "js_mul NInf PInf = NInf"
| "js_mul NInf NInf = PInf"

fun js_div :: "jsnum \<Rightarrow> jsnum \<Rightarrow> jsnum" where
  "js_div NaN _ = NaN"
| "js_div _ NaN = NaN"
| "js_div (Fin a) (Fin b) =
     (if b \<noteq> 0 then Fin (a / b) else if a = 0 then NaN else if 0 < a then PInf else NInf)"
| "js_div (Fin a) PInf = Fin 0"
| "js_div (Fin a) NInf = Fin 0"
| "js_div PInf (Fin b) = (if 0 \<le> b then PInf else NInf)"
| "js_div NInf (Fin b) = (if 0 \<le> b then NInf else PInf)"
| "js_div PInf PInf = NaN"
| "js_div PInf NInf = NaN"
| "js_div NInf PInf = NaN"
| "js_div NInf NInf = NaN"

text \<open>The comparisons \<open><\<close> and \<open><=\<close>.\<close>

fun js_lt :: "jsnum \<Rightarrow> jsnum \<Rightarrow> bool" where
  "js_lt NaN _ = False"
| "js_lt _ NaN = False"
| "js_lt (Fin a) (Fin b) = (a < b)"
| "js_lt _ NInf = False"
| "js_lt NInf _ = True"
| "js_lt PInf _ = False"
| "js_lt _ PInf = True"

fun js_le :: "jsnum \<Rightarrow> jsnum \<Rightarrow> bool" where
  "js_le NaN _ = False"
| "js_le _ NaN = False"
| "js_le (Fin a) (Fin b) = (a \<le> b)"
| "js_le NInf _ = True"
| "js_le _ NInf = False"
| "js_le _ PInf = True"
| "js_le PInf _ = False"

text \<open>\<open>Math.sqrt\<close>, \<open>Math.abs\<close>, \<open>Math.exp\<close>, \<open>Math.cos\<close>, \<open>Math.sin\<close>,
  \<open>Math.max\<close> and \<open>Math.min\<close> of two arguments, and \<open>Math.pow\<close> and \<open>**\<close> with the
  exponents the source uses (1 and 2).\<close>

fun js_sqrt :: "jsnum \<Rightarrow> jsnum" where
  "js_sqrt (Fin a) = (if a < 0 then NaN else Fin (sqrt a))"
| "js_sqrt PInf = PInf"
| "js_sqrt NInf = NaN"
| "js_sqrt NaN = NaN"

fun js_abs :: "jsnum \<Rightarrow> jsnum" where
  "js_abs (Fin a) = Fin \<bar>a\<bar>"
| "js_abs PInf = PInf"
| "js_abs NInf = PInf"
| "js_abs NaN = NaN"

fun js_exp :: "jsnum \<Rightarrow> jsnum" where
  "js_exp (Fin a) = Fin (exp a)"
| "js_exp PInf = PInf"
| "js_exp NInf = Fin 0"
| "js_exp NaN = NaN"

fun js_cos :: "jsnum \<Rightarrow> jsnum" where
  "js_cos (Fin a) = Fin (cos a)"
| "js_cos _ = NaN"

fun js_sin :: "jsnum \<Rightarrow> jsnum" where
  "js_sin (Fin a) = Fin (sin a)"
| "js_sin _ = NaN"

definition js_max :: "jsnum \<Rightarrow> jsnum \<Rightarrow> jsnum" where
  "js_max a b = (if a = NaN \<or> b = NaN then NaN else if js_lt a b then b else a)"

definition js_min :: "jsnum \<Rightarrow> jsnum \<Rightarrow> jsnum" where
  "js_min a b = (if a = NaN \<or> b = NaN then NaN else if js_lt b a then b else a)"

fun js_pow :: "jsnum \<Rightarrow> nat \<Rightarrow> jsnum" where
  "js_pow a 0 = Fin 1"
| "js_pow a (Suc n) = js_mul a (js_pow a n)"

section \<open>Shared types (types.ts)\<close>

text \<open>The fields \<open>x\<close> and \<open>y\<close> of a \<open>Point\<close> are named \<open>pt_x\<close> and \<open>pt_y\<close>.\<close>

record Point =
  pt_x :: jsnum
  pt_y :: jsnum

text \<open>
  \<open>populationSize\<close> is an integer (the slider yields \<open>parseInt\<close> of its value) and
  \<open>speed\<close> a finite number.
\<close>

record SimulationConfig =
  populationSize :: int
  speed :: real
  isRunning :: bool

text \<open>
  What one call of an engine's \<open>animate\<close> reads from its surroundings: whether the
  canvas gives a 2D context, the handle \<open>requestAnimationFrame\<close> returns, the clock
  \<open>Date.now()\<close>, and the results of the successive calls of \<open>Math.random()\<close>, each
  in the interval from 0 (included) to 1 (excluded). The functions below thread the
  number of draws consumed so far.
\<close>

record env =
  ctx_ok :: bool
  frame :: nat
  now :: real
  draws :: "nat \<Rightarrow> real"

definition draws_ok :: "(nat \<Rightarrow> real) \<Rightarrow> bool" where
  "draws_ok rnd = (\<forall>k. 0 \<le> rnd k \<and> rnd k < 1)"

datatype error = TypeError | RangeError | UndefinedCity

definition CANVAS_SIZE :: real where
  "CANVAS_SIZE = 600"

section \<open>Grey Wolf Optimizer (WolfSimulation.tsx)\<close>

datatype Phase = MOVE_PREY | EVALUATE | RANK | CALCULATE | MOVE_WOLVES

datatype WolfType = Alpha | Beta | Delta | Omega

text \<open>The fields \<open>id\<close>, \<open>x\<close>, \<open>y\<close> and \<open>type\<close> carry the prefix \<open>wolf_\<close>.\<close>

record Wolf =
  wolf_id :: nat
  wolf_x :: jsnum
  wolf_y :: jsnum
  targetX :: jsnum
  targetY :: jsnum
  wolf_type :: WolfType
  score :: jsnum

text \<open>The refs of the component: the engine's state, and the animation-frame handle.\<close>

record gwo_state =
  wolvesRef :: "Wolf list"
  preyRef :: Point
  phaseRef :: Phase
  phaseTimerRef :: real
  gwo_iterationRef :: nat
  gwo_requestRef :: nat

text \<open>
  Initialisation (the effect on \<open>config.populationSize\<close>):
  \<open>Array.from({length: n})\<close> has \<open>n\<close> elements, none when \<open>n\<close> is negative, and
  throws a RangeError when \<open>n\<close> is not a valid array length, that is from \<open>2^32\<close>
  on. Each wolf draws four random numbers; the targets are then set to the position.
\<close>

definition init_wolf :: "(nat \<Rightarrow> real) \<Rightarrow> nat \<Rightarrow> Wolf" where
  "init_wolf rnd i =
     \<lparr> wolf_id = i,
       wolf_x = Fin (rnd (4 * i) * CANVAS_SIZE),
       wolf_y = Fin (rnd (4 * i + 1) * CANVAS_SIZE),
       targetX = Fin (rnd (4 * i) * CANVAS_SIZE),
       targetY = Fin (rnd (4 * i + 1) * CANVAS_SIZE),
       wolf_type = Omega,
       score = PInf \<rparr>"

definition gwo_init :: "SimulationConfig \<Rightarrow> (nat \<Rightarrow> real) \<Rightarrow> gwo_state \<Rightarrow> error + gwo_state" where
  "gwo_init cfg rnd s =
     (if 2 ^ 32 \<le> populationSize cfg then Inl RangeError
      else Inr (s\<lparr> wolvesRef := map (init_wolf rnd) [0..<nat (populationSize cfg)],
                  gwo_iterationRef := 0,
                  phaseRef := EVALUATE,
                  phaseTimerRef := 0 \<rparr>))"

definition distance4 :: "jsnum \<Rightarrow> jsnum \<Rightarrow> jsnum \<Rightarrow> jsnum \<Rightarrow> jsnum" where
  "distance4 x1 y1 x2 y2 = js_sqrt (js_add (js_pow (js_sub x2 x1) 2) (js_pow (js_sub y2 y1) 2))"

definition lerp :: "jsnum \<Rightarrow> jsnum \<Rightarrow> jsnum \<Rightarrow> jsnum" where
  "lerp start end' t = js_add (js_mul start (js_sub (Fin 1) t)) (js_mul end' t)"

text \<open>
  \<open>computeDim\<close>, with \<open>k\<close> the number of draws consumed before the call. It draws six
  numbers \<open>r1\<close> .. \<open>r6\<close>; the source's \<open>A3\<close> is computed from \<open>r3\<close>.
\<close>

definition computeDim ::
  "jsnum \<Rightarrow> (nat \<Rightarrow> real) \<Rightarrow> nat \<Rightarrow> jsnum \<Rightarrow> jsnum \<Rightarrow> jsnum \<Rightarrow> jsnum \<Rightarrow> jsnum \<times> nat" where
  "computeDim A rnd k current alphaPos betaPos deltaPos =
     (let r1 = Fin (rnd k); r2 = Fin (rnd (k + 1));
          A1 = js_sub (js_mul (js_mul (Fin 2) A) r1) A;
          C1 = js_mul (Fin 2) r2;
          D_alpha = js_abs (js_sub (js_mul C1 alphaPos) current);
          X1 = js_sub alphaPos (js_mul A1 D_alpha);
          r3 = Fin (rnd (k + 2)); r4 = Fin (rnd (k + 3));
          A2 = js_sub (js_mul (js_mul (Fin 2) A) r3) A;
          C2 = js_mul (Fin 2) r4;
          D_beta = js_abs (js_sub (js_mul C2 betaPos) current);
          X2 = js_sub betaPos (js_mul A2 D_beta);
          r5 = Fin (rnd (k + 4)); r6 = Fin (rnd (k + 5));
          A3 = js_sub (js_mul (js_mul (Fin 2) A) r3) A;
          C3 = js_mul (Fin 2) r6;
          D_delta = js_abs (js_sub (js_mul C3 deltaPos) current);
          X3 = js_sub deltaPos (js_mul A3 D_delta)
      in (js_div (js_add (js_add X1 X2) X3) (Fin 3), k + 6))"

text \<open>The body of the \<open>forEach\<close> of the CALCULATE phase, over the wolves in order.\<close>

fun calculate_wolves ::
  "jsnum \<Rightarrow> (nat \<Rightarrow> real) \<Rightarrow> nat \<Rightarrow> Wolf \<Rightarrow> Wolf \<Rightarrow> Wolf \<Rightarrow> Wolf list \<Rightarrow> Wolf list" where
  "calculate_wolves A rnd k a b d [] = []"
| "calculate_wolves A rnd k a b d (w # ws) =
     (let (tx, k1) = computeDim A rnd k (wolf_x w) (wolf_x a) (wolf_x b) (wolf_x d);
          (ty, k2) = computeDim A rnd k1 (wolf_y w) (wolf_y a) (wolf_y b) (wolf_y d);
          w' = w\<lparr> targetX := js_max (Fin 10) (js_min (Fin (CANVAS_SIZE - 10)) tx),
                  targetY := js_max (Fin 10) (js_min (Fin (CANVAS_SIZE - 10)) ty) \<rparr>
      in w' # calculate_wolves A rnd k2 a b d ws)"

text \<open>
  \<open>Array.prototype.sort\<close> with a comparator is stable; the comparator's result orders
  \<open>b\<close> before \<open>a\<close> when it is positive, and NaN counts as 0. The array \<open>sorted\<close> holds
  references to the wolves of \<open>wolvesRef.current\<close>: it is modelled by their indices.
\<close>

fun js_insort :: "('a \<Rightarrow> 'a \<Rightarrow> jsnum) \<Rightarrow> 'a \<Rightarrow> 'a list \<Rightarrow> 'a list" where
  "js_insort cmp a [] = [a]"
| "js_insort cmp a (b # bs) =
     (if js_lt (Fin 0) (cmp a b) then b # js_insort cmp a bs else a # b # bs)"

definition js_sort :: "('a \<Rightarrow> 'a \<Rightarrow> jsnum) \<Rightarrow> 'a list \<Rightarrow> 'a list" where
  "js_sort cmp xs = foldr (js_insort cmp) xs []"

definition sorted_refs :: "Wolf list \<Rightarrow> nat list" where
  "sorted_refs ws =
     js_sort (\<lambda>a b. js_sub (score (ws ! a)) (score (ws ! b))) [0..<length ws]"

text \<open>\<open>if (sorted[i]) sorted[i].type = t\<close>: the wolf the reference points to changes.\<close>

definition assign_rank :: "nat list \<Rightarrow> nat \<Rightarrow> WolfType \<Rightarrow> Wolf list \<Rightarrow> Wolf list" where
  "assign_rank sorted' i t ws =
     (if i < length sorted'
      then ws[sorted' ! i := (ws ! (sorted' ! i))\<lparr> wolf_type := t \<rparr>]
      else ws)"

definition find_type :: "WolfType \<Rightarrow> Wolf list \<Rightarrow> Wolf option" where
  "find_type t ws = find (\<lambda>w. wolf_type w = t) ws"

fun advancePhase :: "env \<Rightarrow> gwo_state \<Rightarrow> gwo_state" where
  "advancePhase e s =
     (case phaseRef s of
        MOVE_PREY \<Rightarrow>
          (let time = Fin (now e * 0.0005)
           in s\<lparr> preyRef :=
                    \<lparr> pt_x = js_add (Fin (CANVAS_SIZE / 2)) (js_mul (js_cos time) (Fin 150)),
                      pt_y = js_add (Fin (CANVAS_SIZE / 2))
                               (js_mul (js_sin (js_mul time (Fin 2))) (Fin 80)) \<rparr>,
                  phaseRef := EVALUATE \<rparr>)
      | EVALUATE \<Rightarrow>
          s\<lparr> wolvesRef :=
                map (\<lambda>w. w\<lparr> score := distance4 (wolf_x w) (wolf_y w)
                                         (pt_x (preyRef s)) (pt_y (preyRef s)) \<rparr>)
                  (wolvesRef s),
              phaseRef := RANK \<rparr>
      | RANK \<Rightarrow>
          (let sorted' = sorted_refs (wolvesRef s);
               ws0 = map (\<lambda>w. w\<lparr> wolf_type := Omega \<rparr>) (wolvesRef s);
               ws1 = assign_rank sorted' 0 Alpha ws0;
               ws2 = assign_rank sorted' 1 Beta ws1;
               ws3 = assign_rank sorted' 2 Delta ws2
           in s\<lparr> wolvesRef := ws3, phaseRef := CALCULATE \<rparr>)
      | CALCULATE \<Rightarrow>
          (case (find_type Alpha (wolvesRef s), find_type Beta (wolvesRef s),
                 find_type Delta (wolvesRef s)) of
             (Some a, Some b, Some d) \<Rightarrow>
               (let A = Fin (2 - 2 * (real (gwo_iterationRef s) / 1000))
                in s\<lparr> wolvesRef := calculate_wolves A (draws e) 0 a b d (wolvesRef s),
                       phaseRef := MOVE_WOLVES \<rparr>)
           | _ \<Rightarrow> s\<lparr> phaseRef := MOVE_WOLVES \<rparr>)
      | MOVE_WOLVES \<Rightarrow>
          s\<lparr> gwo_iterationRef := gwo_iterationRef s + 1, phaseRef := MOVE_PREY \<rparr>)"

definition PHASE_DURATION :: real where
  "PHASE_DURATION = 150"

text \<open>
  One call of \<open>animate\<close>. Drawing and the statistics callback read the state and do
  not change it.
\<close>

definition gwo_animate :: "SimulationConfig \<Rightarrow> env \<Rightarrow> gwo_state \<Rightarrow> gwo_state" where
  "gwo_animate cfg e s =
     (if \<not> isRunning cfg then s\<lparr> gwo_requestRef := frame e \<rparr>
      else if \<not> ctx_ok e then s
      else
        (let speedMultiplier = 0.2 + (speed cfg / 100) * 0.8;
             s1 = s\<lparr> phaseTimerRef := phaseTimerRef s + speedMultiplier \<rparr>;
             s2 = (if PHASE_DURATION \<le> phaseTimerRef s1
                   then advancePhase e (s1\<lparr> phaseTimerRef := 0 \<rparr>) else s1);
             s3 = (if phaseRef s2 = MOVE_WOLVES \<or> phaseRef s2 = MOVE_PREY
                   then (let moveSpeed = Fin (0.05 * speedMultiplier)
                         in s2\<lparr> wolvesRef :=
                                  map (\<lambda>w. w\<lparr> wolf_x := lerp (wolf_x w) (targetX w) moveSpeed,
                                              wolf_y := lerp (wolf_y w) (targetY w) moveSpeed \<rparr>)
                                    (wolvesRef s2) \<rparr>)
                   else s2)
         in s3\<lparr> gwo_requestRef := frame e \<rparr>))"

section \<open>Ant Colony Optimization (AcoSimulation.tsx)\<close>

definition CITY_COUNT :: nat where
  "CITY_COUNT = 15"

text \<open>The city list (component state) and the refs of the component.\<close>

record aco_state =
  cities :: "Point list"
  pheromonesRef :: "jsnum list list"
  bestPathRef :: "nat list"
  bestDistRef :: jsnum
  aco_iterationRef :: nat
  aco_requestRef :: nat

text \<open>The effect run once on mount: two draws per city, then the all-ones matrix.\<close>

definition init_city :: "(nat \<Rightarrow> real) \<Rightarrow> nat \<Rightarrow> Point" where
  "init_city rnd i =
     \<lparr> pt_x = Fin (rnd (2 * i) * (CANVAS_SIZE - 40) + 20),
       pt_y = Fin (rnd (2 * i + 1) * (CANVAS_SIZE - 40) + 20) \<rparr>"

definition aco_init :: "(nat \<Rightarrow> real) \<Rightarrow> aco_state \<Rightarrow> aco_state" where
  "aco_init rnd s =
     s\<lparr> cities := map (init_city rnd) [0..<CITY_COUNT],
        pheromonesRef := replicate CITY_COUNT (replicate CITY_COUNT (Fin 1)),
        bestDistRef := PInf,
        bestPathRef := [],
        aco_iterationRef := 0 \<rparr>"

definition distance :: "Point \<Rightarrow> Point \<Rightarrow> jsnum" where
  "distance p1 p2 =
     js_sqrt (js_add (js_pow (js_sub (pt_x p1) (pt_x p2)) 2)
                     (js_pow (js_sub (pt_y p1) (pt_y p2)) 2))"

text \<open>
  \<open>distance(cities[i], cities[j])\<close>: an index outside the array reads \<open>undefined\<close>, and
  reading \<open>.x\<close> of it throws a TypeError.
\<close>

definition distance_at :: "Point list \<Rightarrow> nat \<Rightarrow> nat \<Rightarrow> error + jsnum" where
  "distance_at cs i j =
     (if i < length cs \<and> j < length cs then Inr (distance (cs ! i) (cs ! j)) else Inl TypeError)"

text \<open>
  \<open>pheromonesRef.current[i][j]\<close>: a missing row throws a TypeError; a missing entry
  reads \<open>undefined\<close>, which arithmetic turns into NaN.
\<close>

definition pheromone_at :: "jsnum list list \<Rightarrow> nat \<Rightarrow> nat \<Rightarrow> error + jsnum" where
  "pheromone_at M i j =
     (if i < length M then Inr (if j < length (M ! i) then M ! i ! j else NaN)
      else Inl TypeError)"

text \<open>
  The set \<open>visited\<close> is a JavaScript \<open>Set\<close>: the list of its elements in insertion
  order, without repetition; its \<open>size\<close> is the length of the list.
\<close>

definition set_add :: "nat \<Rightarrow> nat list \<Rightarrow> nat list" where
  "set_add c vis = (if c \<in> set vis then vis else vis @ [c])"

text \<open>
  The loop over \<open>next\<close> (lines 74 to 84), over the cities still to look at, with the
  arrays \<open>probs\<close> and \<open>candidates\<close> and the sum \<open>sumProb\<close> built so far.
\<close>

fun candidates_loop ::
  "Point list \<Rightarrow> jsnum list list \<Rightarrow> nat \<Rightarrow> nat list \<Rightarrow> nat list
   \<Rightarrow> jsnum list \<times> nat list \<times> jsnum \<Rightarrow> error + (jsnum list \<times> nat list \<times> jsnum)" where
  "candidates_loop cs M currentCity vis [] acc = Inr acc"
| "candidates_loop cs M currentCity vis (next # rest) (probs, candidates, sumProb) =
     (if next \<in> set vis then candidates_loop cs M currentCity vis rest (probs, candidates, sumProb)
      else
        (case distance_at cs currentCity next of
           Inl err \<Rightarrow> Inl err
         | Inr dist' \<Rightarrow>
             (case pheromone_at M currentCity next of
                Inl err \<Rightarrow> Inl err
              | Inr pheromone \<Rightarrow>
                  (let prob = js_mul (js_pow pheromone 1) (js_pow (js_div (Fin 1) dist') 2)
                   in candidates_loop cs M currentCity vis rest
                        (probs @ [prob], candidates @ [next], js_add sumProb prob)))))"

text \<open>
  Roulette wheel selection (lines 87 to 95). \<open>candidates[i]\<close> is \<open>undefined\<close>
  (\<open>None\<close>) outside the array, as is \<open>candidates[candidates.length - 1]\<close> of an empty
  array.
\<close>

definition candidate_at :: "nat list \<Rightarrow> nat \<Rightarrow> nat option" where
  "candidate_at candidates i = (if i < length candidates then Some (candidates ! i) else None)"

fun roulette_loop :: "jsnum \<Rightarrow> jsnum list \<Rightarrow> nat list \<Rightarrow> nat \<Rightarrow> nat option \<Rightarrow> nat option" where
  "roulette_loop r [] candidates i selected = selected"
| "roulette_loop r (p # ps) candidates i selected =
     (let r' = js_sub r p
      in if js_le r' (Fin 0) then candidate_at candidates i
         else roulette_loop r' ps candidates (Suc i) selected)"

definition roulette_select :: "jsnum list \<Rightarrow> nat list \<Rightarrow> jsnum \<Rightarrow> real \<Rightarrow> nat option" where
  "roulette_select probs candidates sumProb rand =
     roulette_loop (js_mul (Fin rand) sumProb) probs candidates 0
       (if candidates = [] then None else Some (last candidates))"

text \<open>Facts about the two inner loops that the termination of the outer one rests on.\<close>

lemma candidates_loop_result:
  "candidates_loop cs M cur vis ns (probs, cands, sp) = Inr (probs', cands', sp')
   \<Longrightarrow> cands' = cands @ filter (\<lambda>n. n \<notin> set vis) ns
       \<and> length probs' = length probs + length (filter (\<lambda>n. n \<notin> set vis) ns)"
proof (induction ns arbitrary: probs cands sp)
  case Nil
  then show ?case by simp
next
  case (Cons a ns)
  show ?case
  proof (cases "a \<in> set vis")
    case True
    with Cons.prems have "candidates_loop cs M cur vis ns (probs, cands, sp) = Inr (probs', cands', sp')"
      by simp
    from Cons.IH[OF this] True show ?thesis by simp
  next
    case False
    with Cons.prems obtain d ph where
      "candidates_loop cs M cur vis ns
         (probs @ [js_mul (js_pow ph 1) (js_pow (js_div (Fin 1) d) 2)], cands @ [a],
          js_add sp (js_mul (js_pow ph 1) (js_pow (js_div (Fin 1) d) 2)))
       = Inr (probs', cands', sp')"
      by (auto split: sum.splits simp: Let_def simp del: js_pow.simps)
    from Cons.IH[OF this] False show ?thesis by simp
  qed
qed

lemma roulette_loop_member:
  "i + length ps \<le> length cands \<Longrightarrow> sel \<in> Some ` set cands
   \<Longrightarrow> roulette_loop r ps cands i sel \<in> Some ` set cands"
  by (induction ps arbitrary: r i) (auto simp: Let_def candidate_at_def)

lemma roulette_select_member:
  assumes "cands \<noteq> []" "length probs = length cands"
  shows "roulette_select probs cands sp rand \<in> Some ` set cands"
  unfolding roulette_select_def using assms
  by (intro roulette_loop_member) auto

lemma unvisited_nonempty:
  assumes "length vis < n"
  shows "filter (\<lambda>c. c \<notin> set vis) [0..<n] \<noteq> []"
proof
  assume "filter (\<lambda>c. c \<notin> set vis) [0..<n] = []"
  then have "{0..<n} \<subseteq> set vis" by (auto simp: filter_empty_conv)
  then have "card {0..<n} \<le> card (set vis)" by (intro card_mono) auto
  moreover have "card (set vis) \<le> length vis" by (rule card_length)
  ultimately show False using assms by simp
qed

lemma selected_unvisited:
  assumes "candidates_loop cs M cur vis [0..<n] ([], [], Fin 0) = Inr (probs, cands, sp)"
    and "roulette_select probs cands sp rand = Some c"
    and "length vis < n"
  shows "c \<notin> set vis \<and> c < n"
proof -
  from candidates_loop_result[OF assms(1)]
  have c: "cands = filter (\<lambda>c. c \<notin> set vis) [0..<n]" and l: "length probs = length cands"
    by auto
  from c unvisited_nonempty[OF assms(3)] have "cands \<noteq> []" by simp
  from roulette_select_member[OF this l, of sp rand] assms(2) have "c \<in> set cands" by auto
  with c show ?thesis by auto
qed

text \<open>
  The loop \<open>while (visited.size < CITY_COUNT)\<close> (lines 68 to 100), with \<open>k\<close> the
  number of draws consumed. Were \<open>selected\<close> \<open>undefined\<close>, the source would go on with
  it as the current city; the model stops there with \<open>UndefinedCity\<close>, a branch that is
  never taken (\<open>selected_unvisited\<close>, \<open>roulette_select_member\<close>). The loop terminates
  since the selected city is always an unvisited one.
\<close>

function while_unvisited ::
  "Point list \<Rightarrow> jsnum list list \<Rightarrow> (nat \<Rightarrow> real) \<Rightarrow> nat \<Rightarrow> nat list \<Rightarrow> nat list \<Rightarrow> nat
   \<Rightarrow> error + (nat list \<times> nat)" where
  "while_unvisited cs M rnd k vis path currentCity =
     (if length vis < CITY_COUNT then
        (case candidates_loop cs M currentCity vis [0..<CITY_COUNT] ([], [], Fin 0) of
           Inl err \<Rightarrow> Inl err
         | Inr (probs, candidates, sumProb) \<Rightarrow>
             (case roulette_select probs candidates sumProb (rnd k) of
                None \<Rightarrow> Inl UndefinedCity
              | Some selected \<Rightarrow>
                  while_unvisited cs M rnd (Suc k) (set_add selected vis) (path @ [selected])
                    selected))
      else Inr (path, k))"
  by pat_completeness auto
termination
proof (relation "measure (\<lambda>(cs, M, rnd, k, vis, path, cur). CITY_COUNT - length vis)")
  show "wf (measure (\<lambda>(cs, M, rnd, k, vis, path, cur). CITY_COUNT - length vis))" by simp
next
  fix cs :: "Point list" and M :: "jsnum list list" and rnd :: "nat \<Rightarrow> real" and k :: nat
    and vis path :: "nat list" and currentCity selected :: nat
    and x2 :: "jsnum list \<times> nat list \<times> jsnum" and x :: "jsnum list"
    and y :: "nat list \<times> jsnum" and xa :: "nat list" and ya :: jsnum
  assume "length vis < CITY_COUNT"
    and "candidates_loop cs M currentCity vis [0..<CITY_COUNT] ([], [], Fin 0) = Inr x2"
    and "(x, y) = x2" and "(xa, ya) = y"
    and "roulette_select x xa ya (rnd k) = Some selected"
  then show "((cs, M, rnd, Suc k, set_add selected vis, path @ [selected], selected),
              cs, M, rnd, k, vis, path, currentCity)
             \<in> measure (\<lambda>(cs, M, rnd, k, vis, path, cur). CITY_COUNT - length vis)"
    using selected_unvisited[of cs M currentCity vis CITY_COUNT x xa ya "rnd k" selected]
    by (auto simp: set_add_def)
qed

declare while_unvisited.simps [simp del]

text \<open>Lines 62 to 100: the start city, then the loop.\<close>

definition build_path ::
  "Point list \<Rightarrow> jsnum list list \<Rightarrow> (nat \<Rightarrow> real) \<Rightarrow> nat \<Rightarrow> error + (nat list \<times> nat)" where
  "build_path cs M rnd k =
     (let currentCity = nat \<lfloor>rnd k * real CITY_COUNT\<rfloor>
      in while_unvisited cs M rnd (Suc k) [currentCity] [currentCity] currentCity)"

text \<open>
  The edges a path traverses: the consecutive pairs, then the closing edge from the last
  city back to the first. Of an empty path, \<open>path[path.length - 1]\<close> is \<open>undefined\<close>,
  and reading a city or a matrix row at it throws.
\<close>

fun path_edges :: "nat list \<Rightarrow> (nat \<times> nat) list" where
  "path_edges (u # v # rest) = (u, v) # path_edges (v # rest)"
| "path_edges _ = []"

definition tour_edges :: "nat list \<Rightarrow> (nat \<times> nat) list" where
  "tour_edges path = path_edges path @ [(last path, hd path)]"

fun sum_edges :: "Point list \<Rightarrow> (nat \<times> nat) list \<Rightarrow> jsnum \<Rightarrow> error + jsnum" where
  "sum_edges cs [] d = Inr d"
| "sum_edges cs ((u, v) # es) d =
     (case distance_at cs u v of
        Inl err \<Rightarrow> Inl err
      | Inr x \<Rightarrow> sum_edges cs es (js_add d x))"

definition tour_length :: "Point list \<Rightarrow> nat list \<Rightarrow> error + jsnum" where
  "tour_length cs path =
     (if path = [] then Inl TypeError else sum_edges cs (tour_edges path) (Fin 0))"

text \<open>
  The loop over the ants (lines 61 to 119), \<open>n\<close> ants still to go. It carries the arrays
  \<open>currentAntsPaths\<close> and \<open>pathDistances\<close>, the best path and the best distance.
\<close>

fun ants_loop ::
  "Point list \<Rightarrow> jsnum list list \<Rightarrow> (nat \<Rightarrow> real) \<Rightarrow> nat \<Rightarrow> nat
   \<Rightarrow> nat list list \<times> jsnum list \<times> nat list \<times> jsnum
   \<Rightarrow> error + (nat list list \<times> jsnum list \<times> nat list \<times> jsnum)" where
  "ants_loop cs M rnd 0 k acc = Inr acc"
| "ants_loop cs M rnd (Suc n) k (currentAntsPaths, pathDistances, bestPath, bestDist) =
     (case build_path cs M rnd k of
        Inl err \<Rightarrow> Inl err
      | Inr (path, k') \<Rightarrow>
          (case tour_length cs path of
             Inl err \<Rightarrow> Inl err
           | Inr d \<Rightarrow>
               ants_loop cs M rnd n k'
                 (currentAntsPaths @ [path], pathDistances @ [d],
                  if js_lt d bestDist then path else bestPath,
                  if js_lt d bestDist then d else bestDist)))"

text \<open>
  Evaporation (lines 123 to 127) multiplies the entries \<open>[i][j]\<close>, \<open>i, j < CITY_COUNT\<close>;
  a missing row throws, a missing entry becomes NaN.
\<close>

definition evaporate_row :: "real \<Rightarrow> jsnum list \<Rightarrow> jsnum list" where
  "evaporate_row rho row =
     map (\<lambda>j. js_mul (if j < length row then row ! j else NaN) (Fin (1 - rho))) [0..<CITY_COUNT]
     @ drop CITY_COUNT row"

definition evaporate :: "real \<Rightarrow> jsnum list list \<Rightarrow> error + jsnum list list" where
  "evaporate rho M =
     (if length M < CITY_COUNT then Inl TypeError
      else Inr (map (evaporate_row rho) (take CITY_COUNT M) @ drop CITY_COUNT M))"

text \<open>
  \<open>M[u][v] += c\<close>: a missing row throws; a missing entry reads \<open>undefined\<close>, and the
  array grows to hold the NaN that results (the holes before it read as NaN too).
\<close>

definition add_at :: "jsnum list list \<Rightarrow> nat \<Rightarrow> nat \<Rightarrow> jsnum \<Rightarrow> error + jsnum list list" where
  "add_at M u v c =
     (if u < length M
      then (if v < length (M ! u)
            then Inr (M[u := (M ! u)[v := js_add (M ! u ! v) c]])
            else Inr (M[u := M ! u @ replicate (v - length (M ! u)) NaN @ [NaN]]))
      else Inl TypeError)"

fun deposit_edges :: "jsnum list list \<Rightarrow> (nat \<times> nat) list \<Rightarrow> jsnum \<Rightarrow> error + jsnum list list" where
  "deposit_edges M [] c = Inr M"
| "deposit_edges M ((u, v) # es) c =
     (case add_at M u v c of
        Inl err \<Rightarrow> Inl err
      | Inr M1 \<Rightarrow>
          (case add_at M1 v u c of
             Inl err \<Rightarrow> Inl err
           | Inr M2 \<Rightarrow> deposit_edges M2 es c))"

text \<open>
  The deposit loop (lines 129 to 143) over the paths and their distances; the two arrays
  are filled together and have the same length.
\<close>

fun deposit_paths :: "jsnum list list \<Rightarrow> (nat list \<times> jsnum) list \<Rightarrow> error + jsnum list list" where
  "deposit_paths M [] = Inr M"
| "deposit_paths M ((path, d) # rest) =
     (if path = [] then Inl TypeError
      else
        (case deposit_edges M (tour_edges path) (js_div (Fin 100) d) of
           Inl err \<Rightarrow> Inl err
         | Inr M' \<Rightarrow> deposit_paths M' rest))"

text \<open>
  One call of \<open>animate\<close>, up to the statistics callback. The drawing that follows reads
  the state and is not modelled. The second component of the result is
  \<open>currentAntsPaths\<close>, the paths built in this call (none when the call does nothing).
\<close>

definition aco_animate ::
  "SimulationConfig \<Rightarrow> env \<Rightarrow> aco_state \<Rightarrow> error + (aco_state \<times> nat list list)" where
  "aco_animate cfg e s =
     (if \<not> isRunning cfg then Inr (s\<lparr> aco_requestRef := frame e \<rparr>, [])
      else if \<not> ctx_ok e then Inr (s, [])
      else
        (case ants_loop (cities s) (pheromonesRef s) (draws e) (nat (populationSize cfg)) 0
                ([], [], bestPathRef s, bestDistRef s) of
           Inl err \<Rightarrow> Inl err
         | Inr (currentAntsPaths, pathDistances, bestPath, bestDist) \<Rightarrow>
             (case evaporate 0.1 (pheromonesRef s) of
                Inl err \<Rightarrow> Inl err
              | Inr M1 \<Rightarrow>
                  (case deposit_paths M1 (zip currentAntsPaths pathDistances) of
                     Inl err \<Rightarrow> Inl err
                   | Inr M2 \<Rightarrow>
                       Inr (s\<lparr> aco_iterationRef := aco_iterationRef s + 1,
                               bestPathRef := bestPath,
                               bestDistRef := bestDist,
                               pheromonesRef := M2 \<rparr>,
                            currentAntsPaths)))))"

section \<open>Bees Algorithm (BeesSimulation)\<close>

record bees_state =
  beesRef :: "Point list"
  bestRef :: jsnum
  bees_iterationRef :: nat
  bees_requestRef :: nat

text \<open>
  Initialisation (the effect on \<open>config.populationSize\<close>): \<open>Array(n)\<close> throws a
  RangeError when \<open>n\<close> is not a valid array length, that is when it is negative and
  from \<open>2^32\<close> on; each bee draws two random numbers.
\<close>

definition init_bee :: "(nat \<Rightarrow> real) \<Rightarrow> nat \<Rightarrow> Point" where
  "init_bee rnd i =
     \<lparr> pt_x = Fin (rnd (2 * i) * CANVAS_SIZE), pt_y = Fin (rnd (2 * i + 1) * CANVAS_SIZE) \<rparr>"

definition bees_init :: "SimulationConfig \<Rightarrow> (nat \<Rightarrow> real) \<Rightarrow> bees_state \<Rightarrow> error + bees_state" where
  "bees_init cfg rnd s =
     (if populationSize cfg < 0 \<or> 2 ^ 32 \<le> populationSize cfg then Inl RangeError
      else Inr (s\<lparr> beesRef := map (init_bee rnd) [0..<nat (populationSize cfg)],
                  bees_iterationRef := 0,
                  bestRef := Fin 0 \<rparr>))"

definition getFitness :: "jsnum \<Rightarrow> jsnum \<Rightarrow> jsnum" where
  "getFitness b_x b_y =
     (let cx = Fin (CANVAS_SIZE / 2);
          cy = Fin (CANVAS_SIZE / 2);
          d1 = js_sqrt (js_add (js_pow (js_sub b_x cx) 2) (js_pow (js_sub b_y cy) 2));
          v1 = js_mul (Fin 100) (js_exp (js_div (js_neg d1) (Fin 100)));
          d2 = js_sqrt (js_add (js_pow (js_add (js_sub b_x cx) (Fin 150)) 2)
                               (js_pow (js_sub (js_sub b_y cy) (Fin 100)) 2));
          v2 = js_mul (Fin 80) (js_exp (js_div (js_neg d2) (Fin 80)));
          d3 = js_sqrt (js_add (js_pow (js_sub (js_sub b_x cx) (Fin 150)) 2)
                               (js_pow (js_add (js_sub b_y cy) (Fin 150)) 2));
          v3 = js_mul (Fin 60) (js_exp (js_div (js_neg d3) (Fin 60)))
      in js_add (js_add v1 v2) v3)"

text \<open>A scored bee \<open>{x, y, score}\<close> is the pair of its point and its score.\<close>

definition score_bees :: "Point list \<Rightarrow> (Point \<times> jsnum) list" where
  "score_bees bees =
     js_sort (\<lambda>a b. js_sub (snd b) (snd a))
       (map (\<lambda>b. (b, getFitness (pt_x b) (pt_y b))) bees)"

definition clamp_canvas :: "jsnum \<Rightarrow> jsnum" where
  "clamp_canvas v = js_max (Fin 0) (js_min (Fin CANVAS_SIZE) v)"

definition neighbor :: "Point \<Rightarrow> (nat \<Rightarrow> real) \<Rightarrow> nat \<Rightarrow> real \<Rightarrow> Point" where
  "neighbor b rnd k width =
     \<lparr> pt_x = clamp_canvas (js_add (pt_x b) (Fin ((rnd k - 0.5) * width))),
       pt_y = clamp_canvas (js_add (pt_y b) (Fin ((rnd (Suc k) - 0.5) * width))) \<rparr>"

text \<open>
  The loop over the elite sites (lines 447 to 453), over the indices still to do:
  \<open>scoredBees[i]\<close> outside the array is \<open>undefined\<close>, and reading \<open>.x\<close> of it throws.
\<close>

fun elite_loop ::
  "(Point \<times> jsnum) list \<Rightarrow> (nat \<Rightarrow> real) \<Rightarrow> nat list \<Rightarrow> nat \<Rightarrow> Point list
   \<Rightarrow> error + (Point list \<times> nat)" where
  "elite_loop scoredBees rnd [] k newBees = Inr (newBees, k)"
| "elite_loop scoredBees rnd (i # rest) k newBees =
     (if i < length scoredBees
      then (let b = fst (scoredBees ! i)
            in elite_loop scoredBees rnd rest (k + 2)
                 (newBees @ [\<lparr> pt_x = pt_x b, pt_y = pt_y b \<rparr>, neighbor b rnd k 20]))
      else Inl TypeError)"

text \<open>The loop over the other best sites (lines 456 to 462).\<close>

fun other_loop ::
  "(Point \<times> jsnum) list \<Rightarrow> (nat \<Rightarrow> real) \<Rightarrow> int \<Rightarrow> nat list \<Rightarrow> nat \<Rightarrow> Point list
   \<Rightarrow> error + (Point list \<times> nat)" where
  "other_loop scoredBees rnd n [] k newBees = Inr (newBees, k)"
| "other_loop scoredBees rnd n (i # rest) k newBees =
     (if int (length newBees) < n
      then (if i < length scoredBees
            then other_loop scoredBees rnd n rest (k + 2)
                   (newBees @ [neighbor (fst (scoredBees ! i)) rnd k 50])
            else Inl TypeError)
      else other_loop scoredBees rnd n rest k newBees)"

text \<open>The scouts (lines 465 to 470).\<close>

function scouts_loop :: "(nat \<Rightarrow> real) \<Rightarrow> int \<Rightarrow> nat \<Rightarrow> Point list \<Rightarrow> Point list \<times> nat" where
  "scouts_loop rnd n k newBees =
     (if int (length newBees) < n
      then scouts_loop rnd n (k + 2)
             (newBees @ [\<lparr> pt_x = Fin (rnd k * CANVAS_SIZE), pt_y = Fin (rnd (Suc k) * CANVAS_SIZE) \<rparr>])
      else (newBees, k))"
  by pat_completeness auto
termination
  by (relation "measure (\<lambda>(rnd, n, k, newBees). nat (n - int (length newBees)))") auto

declare scouts_loop.simps [simp del]

text \<open>The two thresholds of the selection (lines 441 and 442).\<close>

definition eliteCount :: "SimulationConfig \<Rightarrow> int" where
  "eliteCount cfg = \<lfloor>real_of_int (populationSize cfg) * 0.2\<rfloor>"

definition bestCount :: "SimulationConfig \<Rightarrow> int" where
  "bestCount cfg = \<lfloor>real_of_int (populationSize cfg) * 0.5\<rfloor>"

text \<open>\<open>xs.slice(0, n)\<close>: a negative \<open>n\<close> counts from the end of the array.\<close>

definition slice0 :: "'a list \<Rightarrow> int \<Rightarrow> 'a list" where
  "slice0 xs n = (if 0 \<le> n then take (nat n) xs else take (length xs - nat (- n)) xs)"

text \<open>
  One call of \<open>animate\<close>, up to the statistics callback; the counter is incremented
  before the canvas context is looked up. The drawing that follows reads the state.
\<close>

definition bees_animate :: "SimulationConfig \<Rightarrow> env \<Rightarrow> bees_state \<Rightarrow> error + bees_state" where
  "bees_animate cfg e s =
     (if \<not> isRunning cfg then Inr (s\<lparr> bees_requestRef := frame e \<rparr>)
      else
        (let s1 = s\<lparr> bees_iterationRef := bees_iterationRef s + 1 \<rparr>
         in if \<not> ctx_ok e then Inr s1
            else
              (let scoredBees = score_bees (beesRef s1)
               in if scoredBees = [] then Inl TypeError
                  else
                    (let best = (if js_lt (bestRef s1) (snd (hd scoredBees))
                                 then snd (hd scoredBees) else bestRef s1)
                     in (case elite_loop scoredBees (draws e) [0..<nat (eliteCount cfg)] 0 [] of
                           Inl err \<Rightarrow> Inl err
                         | Inr (nb1, k1) \<Rightarrow>
                             (case other_loop scoredBees (draws e) (populationSize cfg)
                                     [nat (eliteCount cfg)..<nat (bestCount cfg)] k1 nb1 of
                                Inl err \<Rightarrow> Inl err
                              | Inr (nb2, k2) \<Rightarrow>
                                  (let (nb3, k3) = scouts_loop (draws e) (populationSize cfg) k2 nb2
                                   in Inr (s1\<lparr> bestRef := best,
                                                beesRef := slice0 nb3 (populationSize cfg) \<rparr>))))))))"

section \<open>Well-formed states of the ant colony, and runs\<close>

text \<open>
  The state is initialised when the city list holds \<open>CITY_COUNT\<close> cities and the
  pheromone matrix \<open>CITY_COUNT\<close> rows, as the mount effect leaves them.
\<close>

definition aco_initialized :: "Point list \<Rightarrow> jsnum list list \<Rightarrow> bool" where
  "aco_initialized cs M = (CITY_COUNT \<le> length cs \<and> CITY_COUNT \<le> length M)"

text \<open>A path that visits each of the \<open>CITY_COUNT\<close> cities exactly once.\<close>

definition is_tour :: "nat list \<Rightarrow> bool" where
  "is_tour p = (distinct p \<and> set p = {0..<CITY_COUNT})"

text \<open>Finite numbers, and finite numbers that are not negative.\<close>

definition is_fin :: "jsnum \<Rightarrow> bool" where
  "is_fin d = (case d of Fin r \<Rightarrow> True | _ \<Rightarrow> False)"

definition nonneg_fin :: "jsnum \<Rightarrow> bool" where
  "nonneg_fin d = (case d of Fin r \<Rightarrow> 0 \<le> r | _ \<Rightarrow> False)"

text \<open>
  The invariant of the engine: \<open>CITY_COUNT\<close> cities with finite coordinates, and a
  square pheromone matrix that is symmetric with every entry greater than 0.
\<close>

definition cities_ok :: "Point list \<Rightarrow> bool" where
  "cities_ok cs = (length cs = CITY_COUNT \<and> (\<forall>p\<in>set cs. is_fin (pt_x p) \<and> is_fin (pt_y p)))"

definition pher_ok :: "jsnum list list \<Rightarrow> bool" where
  "pher_ok M =
     (length M = CITY_COUNT \<and> (\<forall>i<CITY_COUNT. length (M ! i) = CITY_COUNT)
      \<and> (\<forall>i<CITY_COUNT. \<forall>j<CITY_COUNT. js_lt (Fin 0) (M ! i ! j) \<and> M ! i ! j = M ! j ! i))"

definition aco_inv :: "aco_state \<Rightarrow> bool" where
  "aco_inv s = (cities_ok (cities s) \<and> pher_ok (pheromonesRef s))"

text \<open>
  The driver calls \<open>animate\<close> again and again, each time with the configuration and
  the surroundings of the moment; a call that throws ends the run.
\<close>

fun aco_run :: "(SimulationConfig \<times> env) list \<Rightarrow> aco_state \<Rightarrow> error + aco_state" where
  "aco_run [] s = Inr s"
| "aco_run ((cfg, e) # rest) s =
     (case aco_animate cfg e s of
        Inl err \<Rightarrow> Inl err
      | Inr (s', paths) \<Rightarrow> aco_run rest s')"

section \<open>Well-formed states of the wolf pack\<close>

text \<open>
  The invariant of the engine: every wolf has a finite position and a finite target, and
  a score that is a number; the prey has a finite position.
\<close>

definition wolf_ok :: "Wolf \<Rightarrow> bool" where
  "wolf_ok w = (is_fin (wolf_x w) \<and> is_fin (wolf_y w) \<and> is_fin (targetX w)
                \<and> is_fin (targetY w) \<and> score w \<noteq> NaN)"

definition gwo_ok :: "gwo_state \<Rightarrow> bool" where
  "gwo_ok s = ((\<forall>w\<in>set (wolvesRef s). wolf_ok w)
               \<and> is_fin (pt_x (preyRef s)) \<and> is_fin (pt_y (preyRef s)))"

text \<open>The target positions of the wolves, in order.\<close>

definition targets :: "gwo_state \<Rightarrow> (jsnum \<times> jsnum) list" where
  "targets s = map (\<lambda>w. (targetX w, targetY w)) (wolvesRef s)"

text \<open>The rank the RANK phase gives the wolf at index \<open>i\<close>, from the sorted references.\<close>

definition rank_of :: "nat list \<Rightarrow> nat \<Rightarrow> WolfType" where
  "rank_of srt i = (if i = srt ! 2 then Delta else if i = srt ! 1 then Beta
                    else if i = srt ! 0 then Alpha else Omega)"

section \<open>Populations the Bees engine can rebuild\<close>


section \<open>Concrete inputs\<close>

text \<open>Inputs at which the theorems below are instantiated.\<close>

definition env0 :: env where
  "env0 = \<lparr> ctx_ok = True, frame = 1, now = 0, draws = (\<lambda>_. 1 / 2) \<rparr>"

definition paused :: SimulationConfig where
  "paused = \<lparr> populationSize = 10, speed = 30, isRunning = False \<rparr>"

definition mk_wolf :: "nat \<Rightarrow> real \<Rightarrow> real \<Rightarrow> WolfType \<Rightarrow> jsnum \<Rightarrow> Wolf" where
  "mk_wolf i px py t sc =
     \<lparr> wolf_id = i, wolf_x = Fin px, wolf_y = Fin py, targetX = Fin px, targetY = Fin py,
       wolf_type = t, score = sc \<rparr>"

definition pack2 :: gwo_state where
  "pack2 =
     \<lparr> wolvesRef = [mk_wolf 0 100 100 Alpha (Fin 1), mk_wolf 1 200 200 Beta (Fin 2)],
       preyRef = \<lparr> pt_x = Fin 300, pt_y = Fin 300 \<rparr>,
       phaseRef = CALCULATE, phaseTimerRef = 0, gwo_iterationRef = 0, gwo_requestRef = 0 \<rparr>"

definition pack3 :: gwo_state where
  "pack3 =
     \<lparr> wolvesRef = [mk_wolf 0 100 100 Omega (Fin 5), mk_wolf 1 200 200 Omega (Fin 1),
                    mk_wolf 2 250 250 Omega (Fin 3)],
       preyRef = \<lparr> pt_x = Fin 300, pt_y = Fin 300 \<rparr>,
       phaseRef = RANK, phaseTimerRef = 0, gwo_iterationRef = 0, gwo_requestRef = 0 \<rparr>"

definition draws1 :: "nat \<Rightarrow> real" where
  "draws1 k = real (k mod 31) / 31"

definition env1 :: env where
  "env1 = \<lparr> ctx_ok = True, frame = 2, now = 1000, draws = draws1 \<rparr>"

definition aco_blank :: aco_state where
  "aco_blank =
     \<lparr> cities = [], pheromonesRef = [], bestPathRef = [], bestDistRef = PInf,
       aco_iterationRef = 0, aco_requestRef = 0 \<rparr>"

definition aco0 :: aco_state where
  "aco0 = aco_init draws1 aco_blank"

definition bees0 :: bees_state where
  "bees0 = \<lparr> beesRef = map (init_bee draws1) [0..<10], bestRef = Fin 0,
             bees_iterationRef = 0, bees_requestRef = 0 \<rparr>"


definition cfg_of :: "int \<Rightarrow> SimulationConfig" where
  "cfg_of n = \<lparr> populationSize = n, speed = 30, isRunning = True \<rparr>"

definition bees_cfg :: SimulationConfig where
  "bees_cfg = \<lparr> populationSize = 10, speed = 30, isRunning = True \<rparr>"

section \<open>Grey Wolf Optimizer: the CALCULATE phase\<close>

lemma find_type_Some: "find_type t ws = Some w \<Longrightarrow> w \<in> set ws \<and> wolf_type w = t"
  unfolding find_type_def by (auto simp: find_Some_iff)

lemma three_leaders_length:
  assumes "find_type Alpha ws = Some a" "find_type Beta ws = Some b" "find_type Delta ws = Some d"
  shows "3 \<le> length ws"
proof -
  from assms have m: "a \<in> set ws" "b \<in> set ws" "d \<in> set ws"
    and t: "wolf_type a = Alpha" "wolf_type b = Beta" "wolf_type d = Delta"
    by (auto dest: find_type_Some)
  from t have "a \<noteq> b" "a \<noteq> d" "b \<noteq> d" by auto
  then have "card {a, b, d} = 3" by simp
  moreover have "card {a, b, d} \<le> card (set ws)" using m by (intro card_mono) auto
  moreover have "card (set ws) \<le> length ws" by (rule card_length)
  ultimately show ?thesis by linarith
qed

text \<open>
  C10: when the CALCULATE transition finds no alpha, no beta or no delta, which is the
  case of every pack of fewer than three wolves, it changes no wolf: no target position
  is modified, and the phase moves on to \<open>MOVE_WOLVES\<close>. So such a pack never gets a
  new target (\<open>small_pack_targets_fixed\<close> below).
\<close>

theorem calculate_skipped_without_leader:
  assumes "phaseRef s = CALCULATE"
    and "find_type Alpha (wolvesRef s) = None \<or> find_type Beta (wolvesRef s) = None
         \<or> find_type Delta (wolvesRef s) = None \<or> length (wolvesRef s) < 3"
  shows "wolvesRef (advancePhase e s) = wolvesRef s \<and> phaseRef (advancePhase e s) = MOVE_WOLVES"
proof -
  have "find_type Alpha (wolvesRef s) = None \<or> find_type Beta (wolvesRef s) = None
         \<or> find_type Delta (wolvesRef s) = None"
    using assms(2) three_leaders_length[of "wolvesRef s"] by fastforce
  then show ?thesis using assms(1) by (auto split: option.splits)
qed

theorem calculate_skipped_witness:
  "phaseRef pack2 = CALCULATE \<and> length (wolvesRef pack2) < 3
   \<and> wolvesRef (advancePhase env0 pack2) = wolvesRef pack2
   \<and> phaseRef (advancePhase env0 pack2) = MOVE_WOLVES"
proof -
  have h1: "phaseRef pack2 = CALCULATE" by (simp add: pack2_def)
  have h2: "length (wolvesRef pack2) < 3" by (simp add: pack2_def)
  from calculate_skipped_without_leader[of pack2 env0] h1 h2 show ?thesis by blast
qed

text \<open>
  C8: the result of \<open>computeDim\<close> does not depend on its fifth draw \<open>r5\<close>: whatever
  value replaces it, the result is the same. The coefficient \<open>A3\<close> of the delta term is
  computed from \<open>r3\<close>, the draw of the beta term, and \<open>r5\<close> is drawn and never used.
\<close>

theorem computeDim_ignores_r5:
  "computeDim A (rnd(k + 4 := v)) k current alphaPos betaPos deltaPos
   = computeDim A rnd k current alphaPos betaPos deltaPos"
  by (simp add: computeDim_def)

text \<open>
  At the draws 1/2, 1/2, 0, 1/2, 1/2, 1/2, with \<open>A = 2\<close>, the wolf at 0 and the three
  leaders at 30, the source computes 70; with \<open>A3\<close> formed from \<open>r5\<close> the three terms
  would be 30, 90 and 30, and their mean 50.
\<close>

lemma computeDim_example:
  "computeDim (Fin 2) ((\<lambda>_. 1 / 2)(2 := 0)) 0 (Fin 0) (Fin 30) (Fin 30) (Fin 30) = (Fin 70, 6)"
  by (simp add: computeDim_def js_sub_def)

text \<open>
  A pack of fewer than three wolves never gets a new target: no call of \<open>animate\<close>,
  in whatever phase, changes a target position of such a pack.
\<close>

lemma assign_rank_targets:
  "map (\<lambda>w. (targetX w, targetY w)) (assign_rank srt i t ws) = map (\<lambda>w. (targetX w, targetY w)) ws"
proof (cases "i < length srt \<and> srt ! i < length ws")
  case True
  then show ?thesis
    by (simp add: assign_rank_def map_update list_update_same_conv)
next
  case False
  then show ?thesis by (auto simp: assign_rank_def list_update_beyond)
qed

lemma advancePhase_small_pack_targets:
  assumes "length (wolvesRef s) < 3"
  shows "targets (advancePhase e s) = targets s"
proof (cases "phaseRef s")
  case MOVE_PREY
  then show ?thesis by (simp add: targets_def Let_def)
next
  case EVALUATE
  then show ?thesis by (simp add: targets_def comp_def)
next
  case RANK
  then show ?thesis by (simp add: targets_def Let_def assign_rank_targets comp_def)
next
  case CALCULATE
  have "find_type Alpha (wolvesRef s) = None \<or> find_type Beta (wolvesRef s) = None
         \<or> find_type Delta (wolvesRef s) = None"
    using assms three_leaders_length[of "wolvesRef s"] by fastforce
  with CALCULATE show ?thesis by (auto simp: targets_def split: option.splits)
next
  case MOVE_WOLVES
  then show ?thesis by (simp add: targets_def)
qed

lemma small_pack_targets_fixed:
  assumes "length (wolvesRef s) < 3"
  shows "targets (gwo_animate cfg e s) = targets s"
proof (cases "isRunning cfg \<and> ctx_ok e")
  case False
  then show ?thesis by (auto simp: gwo_animate_def targets_def)
next
  case True
  define sm where "sm = 0.2 + (speed cfg / 100) * 0.8"
  define s1 where "s1 = s\<lparr> phaseTimerRef := phaseTimerRef s + sm \<rparr>"
  define s2 where "s2 = (if PHASE_DURATION \<le> phaseTimerRef s1
                         then advancePhase e (s1\<lparr> phaseTimerRef := 0 \<rparr>) else s1)"
  define s3 where "s3 = (if phaseRef s2 = MOVE_WOLVES \<or> phaseRef s2 = MOVE_PREY
                         then s2\<lparr> wolvesRef :=
                                  map (\<lambda>w. w\<lparr> wolf_x := lerp (wolf_x w) (targetX w) (Fin (0.05 * sm)),
                                              wolf_y := lerp (wolf_y w) (targetY w) (Fin (0.05 * sm)) \<rparr>)
                                    (wolvesRef s2) \<rparr>
                         else s2)"
  have eq: "gwo_animate cfg e s = s3\<lparr> gwo_requestRef := frame e \<rparr>"
    using True unfolding gwo_animate_def Let_def s3_def s2_def s1_def sm_def by simp
  have "targets (advancePhase e (s1\<lparr> phaseTimerRef := 0 \<rparr>)) = targets (s1\<lparr> phaseTimerRef := 0 \<rparr>)"
    using assms by (intro advancePhase_small_pack_targets) (simp add: s1_def)
  then have t2: "targets s2 = targets s" by (simp add: s2_def s1_def targets_def)
  have "targets s3 = targets s2" by (simp add: s3_def targets_def comp_def)
  with t2 show ?thesis unfolding eq by (simp add: targets_def)
qed

section \<open>Grey Wolf Optimizer: the invariant\<close>

text \<open>
  Initialisation establishes \<open>gwo_ok\<close> and every call of \<open>animate\<close> keeps it: in
  every state the engine reaches, the scores are numbers.
\<close>

lemma is_fin_iff: "is_fin a = (\<exists>r. a = Fin r)"
  by (cases a) (simp_all add: is_fin_def)

lemma computeDim_fin:
  assumes "is_fin current" "is_fin alphaPos" "is_fin betaPos" "is_fin deltaPos"
  shows "is_fin (fst (computeDim (Fin A) rnd k current alphaPos betaPos deltaPos))"
  using assms
  by (cases current; cases alphaPos; cases betaPos; cases deltaPos)
     (simp_all add: is_fin_def computeDim_def js_sub_def)

lemma clamp_fin: "is_fin v \<Longrightarrow> is_fin (js_max (Fin lo) (js_min (Fin hi) v))"
  by (auto simp: is_fin_iff js_max_def js_min_def)

lemma lerp_fin: "is_fin a \<Longrightarrow> is_fin b \<Longrightarrow> is_fin (lerp a b (Fin t))"
  by (auto simp: is_fin_iff lerp_def js_sub_def)

lemma distance4_fin:
  assumes "is_fin x1" "is_fin y1" "is_fin x2" "is_fin y2"
  shows "is_fin (distance4 x1 y1 x2 y2)"
  using assms by (auto simp: is_fin_iff distance4_def js_sub_def numeral_2_eq_2 not_less)

lemma calculate_wolves_ok:
  assumes "wolf_ok a" "wolf_ok b" "wolf_ok d"
  shows "\<forall>w\<in>set ws. wolf_ok w \<Longrightarrow> \<forall>w\<in>set (calculate_wolves (Fin A) rnd k a b d ws). wolf_ok w"
proof (induction ws arbitrary: k)
  case Nil
  then show ?case by simp
next
  case (Cons w ws)
  from Cons.prems have w: "wolf_ok w" and ws: "\<forall>w\<in>set ws. wolf_ok w" by auto
  obtain tx k1 where c1: "computeDim (Fin A) rnd k (wolf_x w) (wolf_x a) (wolf_x b) (wolf_x d) = (tx, k1)"
    by force
  obtain ty k2 where c2: "computeDim (Fin A) rnd k1 (wolf_y w) (wolf_y a) (wolf_y b) (wolf_y d) = (ty, k2)"
    by force
  have "is_fin tx"
    using computeDim_fin[of "wolf_x w" "wolf_x a" "wolf_x b" "wolf_x d" A rnd k] c1 w assms
    by (simp add: wolf_ok_def)
  moreover have "is_fin ty"
    using computeDim_fin[of "wolf_y w" "wolf_y a" "wolf_y b" "wolf_y d" A rnd k1] c2 w assms
    by (simp add: wolf_ok_def)
  ultimately have "wolf_ok (w\<lparr> targetX := js_max (Fin 10) (js_min (Fin (CANVAS_SIZE - 10)) tx),
                           targetY := js_max (Fin 10) (js_min (Fin (CANVAS_SIZE - 10)) ty) \<rparr>)"
    using w by (simp add: wolf_ok_def clamp_fin)
  with Cons.IH[OF ws, of k2] c1 c2 show ?case by simp
qed

lemma assign_rank_ok:
  "\<forall>w\<in>set ws. wolf_ok w \<Longrightarrow> \<forall>w\<in>set (assign_rank srt i t ws). wolf_ok w"
proof -
  assume a: "\<forall>w\<in>set ws. wolf_ok w"
  show ?thesis
  proof (cases "i < length srt \<and> srt ! i < length ws")
    case True
    then have "wolf_ok ((ws ! (srt ! i))\<lparr> wolf_type := t \<rparr>)"
      using a by (simp add: wolf_ok_def)
    with a True show ?thesis
      by (auto simp: assign_rank_def dest!: set_update_subset_insert[THEN subsetD])
  next
    case False
    with a show ?thesis by (auto simp: assign_rank_def list_update_beyond)
  qed
qed

lemma advancePhase_ok:
  assumes "gwo_ok s"
  shows "gwo_ok (advancePhase e s)"
proof (cases "phaseRef s")
  case MOVE_PREY
  with assms show ?thesis by (simp add: gwo_ok_def Let_def is_fin_def)
next
  case EVALUATE
  have "score (w\<lparr> score := distance4 (wolf_x w) (wolf_y w) (pt_x (preyRef s)) (pt_y (preyRef s)) \<rparr>)
        \<noteq> NaN" if "w \<in> set (wolvesRef s)" for w
  proof -
    from that assms have "is_fin (distance4 (wolf_x w) (wolf_y w) (pt_x (preyRef s)) (pt_y (preyRef s)))"
      by (intro distance4_fin) (auto simp: gwo_ok_def wolf_ok_def)
    then show ?thesis by (auto simp: is_fin_def)
  qed
  with EVALUATE assms show ?thesis by (auto simp: gwo_ok_def wolf_ok_def)
next
  case RANK
  have "\<forall>w\<in>set (map (\<lambda>w. w\<lparr> wolf_type := Omega \<rparr>) (wolvesRef s)). wolf_ok w"
    using assms by (simp add: gwo_ok_def wolf_ok_def)
  then have "\<forall>w\<in>set (assign_rank (sorted_refs (wolvesRef s)) 2 Delta
              (assign_rank (sorted_refs (wolvesRef s)) 1 Beta
                (assign_rank (sorted_refs (wolvesRef s)) 0 Alpha
                  (map (\<lambda>w. w\<lparr> wolf_type := Omega \<rparr>) (wolvesRef s))))). wolf_ok w"
    by (intro assign_rank_ok)
  with RANK assms show ?thesis by (simp add: gwo_ok_def Let_def)
next
  case CALCULATE
  show ?thesis
  proof (cases "\<exists>a b d. find_type Alpha (wolvesRef s) = Some a \<and> find_type Beta (wolvesRef s) = Some b
                  \<and> find_type Delta (wolvesRef s) = Some d")
    case True
    then obtain a b d where f: "find_type Alpha (wolvesRef s) = Some a"
      "find_type Beta (wolvesRef s) = Some b" "find_type Delta (wolvesRef s) = Some d" by blast
    with assms have "wolf_ok a" "wolf_ok b" "wolf_ok d"
      by (auto simp: gwo_ok_def dest: find_type_Some)
    from calculate_wolves_ok[OF this, of "wolvesRef s"] assms
    have "\<forall>w\<in>set (calculate_wolves (Fin A) rnd k a b d (wolvesRef s)). wolf_ok w" for A rnd k
      by (simp add: gwo_ok_def)
    with assms CALCULATE f show ?thesis
      by (simp add: gwo_ok_def)
  next
    case False
    with CALCULATE assms show ?thesis by (auto simp: gwo_ok_def split: option.splits)
  qed
next
  case MOVE_WOLVES
  with assms show ?thesis by (simp add: gwo_ok_def)
qed

lemma gwo_animate_ok:
  assumes "gwo_ok s"
  shows "gwo_ok (gwo_animate cfg e s)"
proof (cases "isRunning cfg \<and> ctx_ok e")
  case False
  then show ?thesis using assms by (auto simp: gwo_animate_def gwo_ok_def)
next
  case True
  define sm where "sm = 0.2 + (speed cfg / 100) * 0.8"
  define s1 where "s1 = s\<lparr> phaseTimerRef := phaseTimerRef s + sm \<rparr>"
  define s2 where "s2 = (if PHASE_DURATION \<le> phaseTimerRef s1
                         then advancePhase e (s1\<lparr> phaseTimerRef := 0 \<rparr>) else s1)"
  define s3 where "s3 = (if phaseRef s2 = MOVE_WOLVES \<or> phaseRef s2 = MOVE_PREY
                         then s2\<lparr> wolvesRef :=
                                  map (\<lambda>w. w\<lparr> wolf_x := lerp (wolf_x w) (targetX w) (Fin (0.05 * sm)),
                                              wolf_y := lerp (wolf_y w) (targetY w) (Fin (0.05 * sm)) \<rparr>)
                                    (wolvesRef s2) \<rparr>
                         else s2)"
  have eq: "gwo_animate cfg e s = s3\<lparr> gwo_requestRef := frame e \<rparr>"
    using True unfolding gwo_animate_def Let_def s3_def s2_def s1_def sm_def by simp
  have ok1: "gwo_ok s1" using assms by (simp add: gwo_ok_def s1_def)
  then have "gwo_ok (s1\<lparr> phaseTimerRef := 0 \<rparr>)" by (simp add: gwo_ok_def)
  then have "gwo_ok (advancePhase e (s1\<lparr> phaseTimerRef := 0 \<rparr>))" by (rule advancePhase_ok)
  with ok1 have ok2: "gwo_ok s2" by (simp add: s2_def)
  then have ok3: "gwo_ok s3" by (auto simp: s3_def gwo_ok_def wolf_ok_def lerp_fin)
  show ?thesis unfolding eq using ok3 by (simp add: gwo_ok_def)
qed

lemma gwo_init_ok:
  assumes "is_fin (pt_x (preyRef s))" "is_fin (pt_y (preyRef s))"
    and "gwo_init cfg rnd s = Inr s'"
  shows "gwo_ok s'"
  using assms
  by (auto simp: gwo_init_def gwo_ok_def wolf_ok_def init_wolf_def is_fin_def split: if_splits)

section \<open>Grey Wolf Optimizer: the RANK phase\<close>

lemma js_sub_pos_iff: "a \<noteq> NaN \<Longrightarrow> b \<noteq> NaN \<Longrightarrow> js_lt (Fin 0) (js_sub a b) = js_lt b a"
  by (cases a; cases b) (auto simp: js_sub_def)

lemma js_not_lt_iff: "a \<noteq> NaN \<Longrightarrow> b \<noteq> NaN \<Longrightarrow> (\<not> js_lt b a) = js_le a b"
  by (cases a; cases b) auto

lemma js_lt_imp_le: "js_lt a b \<Longrightarrow> js_le a b"
  by (cases a; cases b) auto

lemma js_le_trans: "js_le a b \<Longrightarrow> js_le b c \<Longrightarrow> js_le a c"
  by (cases a; cases b; cases c) auto

lemma js_insort_set: "set (js_insort cmp a bs) = insert a (set bs)"
  by (induction bs) auto

lemma js_insort_distinct: "distinct (js_insort cmp a bs) = (a \<notin> set bs \<and> distinct bs)"
  by (induction bs) (auto simp: js_insort_set)

lemma js_insort_length: "length (js_insort cmp a bs) = Suc (length bs)"
  by (induction bs) auto

lemma js_sort_set: "set (js_sort cmp xs) = set xs"
  unfolding js_sort_def by (induction xs) (auto simp: js_insort_set)

lemma js_sort_distinct: "distinct (js_sort cmp xs) = distinct xs"
  using js_sort_set[of cmp] unfolding js_sort_def
  by (induction xs) (auto simp: js_insort_distinct js_sort_def)

lemma js_sort_length: "length (js_sort cmp xs) = length xs"
  unfolding js_sort_def by (induction xs) (auto simp: js_insort_length)

lemma js_insort_sorted:
  assumes "f a \<noteq> NaN" "\<forall>b\<in>set bs. f b \<noteq> NaN"
    and "sorted_wrt (\<lambda>x y. js_le (f x) (f y)) bs"
  shows "sorted_wrt (\<lambda>x y. js_le (f x) (f y)) (js_insort (\<lambda>a b. js_sub (f a) (f b)) a bs)"
  using assms
proof (induction bs)
  case Nil
  then show ?case by simp
next
  case (Cons b bs)
  show ?case
  proof (cases "js_lt (f b) (f a)")
    case True
    then have "js_le (f b) (f a)" by (rule js_lt_imp_le)
    with True Cons show ?thesis
      by (auto simp: js_sub_pos_iff js_insort_set)
  next
    case False
    with Cons.prems have ab: "js_le (f a) (f b)" by (simp add: js_not_lt_iff)
    have "\<forall>c\<in>set bs. js_le (f a) (f c)"
      using Cons.prems(3) ab by (auto intro: js_le_trans)
    with False ab Cons.prems show ?thesis by (simp add: js_sub_pos_iff)
  qed
qed

lemma js_sort_sorted:
  assumes "\<forall>b\<in>set xs. f b \<noteq> NaN"
  shows "sorted_wrt (\<lambda>x y. js_le (f x) (f y)) (js_sort (\<lambda>a b. js_sub (f a) (f b)) xs)"
  using assms
proof (induction xs)
  case Nil
  then show ?case by (simp add: js_sort_def)
next
  case (Cons a xs)
  then have "sorted_wrt (\<lambda>x y. js_le (f x) (f y)) (js_sort (\<lambda>a b. js_sub (f a) (f b)) xs)"
    by simp
  moreover have "\<forall>b\<in>set (js_sort (\<lambda>a b. js_sub (f a) (f b)) xs). f b \<noteq> NaN"
    using Cons.prems by (simp add: js_sort_set)
  ultimately have "sorted_wrt (\<lambda>x y. js_le (f x) (f y))
      (js_insort (\<lambda>a b. js_sub (f a) (f b)) a (js_sort (\<lambda>a b. js_sub (f a) (f b)) xs))"
    using Cons.prems by (intro js_insort_sorted) auto
  then show ?case by (simp add: js_sort_def)
qed

lemma sorted_refs_props:
  "set (sorted_refs ws) = {0..<length ws}" "distinct (sorted_refs ws)"
  "length (sorted_refs ws) = length ws"
  by (simp_all add: sorted_refs_def js_sort_set js_sort_distinct js_sort_length)

lemma sorted_refs_sorted:
  assumes "\<forall>w\<in>set ws. score w \<noteq> NaN"
  shows "sorted_wrt (\<lambda>i j. js_le (score (ws ! i)) (score (ws ! j))) (sorted_refs ws)"
  unfolding sorted_refs_def using assms
  by (intro js_sort_sorted[where f = "\<lambda>i. score (ws ! i)"]) auto

lemma rank_wolves_nth:
  assumes n: "3 \<le> length ws" and i: "i < length ws"
  defines "srt \<equiv> sorted_refs ws"
  shows "assign_rank srt 2 Delta (assign_rank srt 1 Beta (assign_rank srt 0 Alpha
           (map (\<lambda>w. w\<lparr>wolf_type := Omega\<rparr>) ws))) ! i
         = (ws ! i)\<lparr>wolf_type := rank_of srt i\<rparr>"
proof -
  have len: "length srt = length ws" and set: "set srt = {0..<length ws}"
    by (simp_all add: srt_def sorted_refs_props)
  have "srt ! 0 \<in> set srt" "srt ! 1 \<in> set srt" "srt ! 2 \<in> set srt"
    using n len by (auto intro!: nth_mem)
  then have b: "srt ! 0 < length ws" "srt ! 1 < length ws" "srt ! 2 < length ws"
    using set by auto
  show ?thesis
    using n i len b
    by (auto simp: assign_rank_def rank_of_def nth_list_update)
qed

lemma assign_rank_length: "length (assign_rank srt i t ws) = length ws"
  by (simp add: assign_rank_def)

lemma count_one:
  assumes "a < length xs" "\<And>i. i < length xs \<Longrightarrow> P (xs ! i) = (i = a)"
  shows "length (filter P xs) = 1"
proof -
  have "{i. i < length xs \<and> P (xs ! i)} = {a}" using assms by auto
  then show ?thesis by (simp add: length_filter_conv_card)
qed

text \<open>
  C2: after a RANK transition of a pack of at least three wolves whose scores are numbers
  (not NaN, as in every state the engine reaches: \<open>gwo_ok\<close>), exactly one wolf is
  alpha, exactly one beta and exactly one delta, all the other wolves are omega, and the
  scores satisfy alpha \<open>\<le>\<close> beta \<open>\<le>\<close> delta \<open>\<le>\<close> every omega.
\<close>

theorem rank_postcondition:
  assumes "phaseRef s = RANK" and "3 \<le> length (wolvesRef s)"
    and "\<forall>w\<in>set (wolvesRef s). score w \<noteq> NaN"
  shows "length (filter (\<lambda>w. wolf_type w = Alpha) (wolvesRef (advancePhase e s))) = 1
       \<and> length (filter (\<lambda>w. wolf_type w = Beta) (wolvesRef (advancePhase e s))) = 1
       \<and> length (filter (\<lambda>w. wolf_type w = Delta) (wolvesRef (advancePhase e s))) = 1
       \<and> length (filter (\<lambda>w. wolf_type w = Omega) (wolvesRef (advancePhase e s)))
           = length (wolvesRef s) - 3
       \<and> (\<forall>a\<in>set (wolvesRef (advancePhase e s)). \<forall>b\<in>set (wolvesRef (advancePhase e s)).
            wolf_type a = Alpha \<and> wolf_type b = Beta \<longrightarrow> js_le (score a) (score b))
       \<and> (\<forall>b\<in>set (wolvesRef (advancePhase e s)). \<forall>d\<in>set (wolvesRef (advancePhase e s)).
            wolf_type b = Beta \<and> wolf_type d = Delta \<longrightarrow> js_le (score b) (score d))
       \<and> (\<forall>d\<in>set (wolvesRef (advancePhase e s)). \<forall>w\<in>set (wolvesRef (advancePhase e s)).
            wolf_type d = Delta \<and> wolf_type w = Omega \<longrightarrow> js_le (score d) (score w))
       \<and> phaseRef (advancePhase e s) = CALCULATE"
proof -
  define ws where "ws = wolvesRef s"
  define srt where "srt = sorted_refs ws"
  define ws' where "ws' = wolvesRef (advancePhase e s)"
  have ws'_eq: "ws' = assign_rank srt 2 Delta (assign_rank srt 1 Beta (assign_rank srt 0 Alpha
           (map (\<lambda>w. w\<lparr>wolf_type := Omega\<rparr>) ws)))"
    using assms(1) by (simp add: ws'_def srt_def ws_def Let_def)
  have n: "3 \<le> length ws" using assms(2) by (simp add: ws_def)
  have len': "length ws' = length ws" by (simp add: ws'_eq assign_rank_length)
  have nth': "\<And>i. i < length ws \<Longrightarrow> ws' ! i = (ws ! i)\<lparr>wolf_type := rank_of srt i\<rparr>"
    unfolding ws'_eq srt_def using n by (rule rank_wolves_nth)
  have len: "length srt = length ws" and set: "set srt = {0..<length ws}"
    and dist: "distinct srt"
    by (simp_all add: srt_def sorted_refs_props)
  have mem: "srt ! 0 \<in> set srt" "srt ! 1 \<in> set srt" "srt ! 2 \<in> set srt"
    using n len by (auto intro!: nth_mem)
  then have b: "srt ! 0 < length ws" "srt ! 1 < length ws" "srt ! 2 < length ws"
    using set by auto
  have l3: "0 < length srt" "1 < length srt" "2 < length srt" using n len by auto
  have ne: "srt ! 0 \<noteq> srt ! 1" "srt ! 0 \<noteq> srt ! 2" "srt ! 1 \<noteq> srt ! 2"
    using nth_eq_iff_index_eq[OF dist l3(1) l3(2)] nth_eq_iff_index_eq[OF dist l3(1) l3(3)]
      nth_eq_iff_index_eq[OF dist l3(2) l3(3)]
    by simp_all
  have srtd: "sorted_wrt (\<lambda>i j. js_le (score (ws ! i)) (score (ws ! j))) srt"
    unfolding srt_def using assms(3) by (intro sorted_refs_sorted) (simp add: ws_def)
  have le01: "js_le (score (ws ! (srt ! 0))) (score (ws ! (srt ! 1)))"
    using sorted_wrt_nth_less[OF srtd, of 0 1] n len by simp
  have le12: "js_le (score (ws ! (srt ! 1))) (score (ws ! (srt ! 2)))"
    using sorted_wrt_nth_less[OF srtd, of 1 2] n len by simp
  have le2: "js_le (score (ws ! (srt ! 2))) (score (ws ! i))"
    if "i < length ws" "rank_of srt i = Omega" for i
  proof -
    from that(1) set have "i \<in> set srt" by simp
    then obtain j where j: "j < length srt" "srt ! j = i" by (auto simp: in_set_conv_nth)
    have "srt ! j \<noteq> srt ! 0" "srt ! j \<noteq> srt ! 1" "srt ! j \<noteq> srt ! 2"
      using that(2) j(2) by (auto simp: rank_of_def split: if_splits)
    then have "j \<noteq> 0 \<and> j \<noteq> 1 \<and> j \<noteq> 2" by (intro conjI notI) simp_all
    then have "2 < j" by simp
    from sorted_wrt_nth_less[OF srtd this j(1)] j(2) show ?thesis by simp
  qed
  have cA: "length (filter (\<lambda>w. wolf_type w = Alpha) ws') = 1"
    using b ne by (intro count_one[of "srt ! 0"]) (auto simp: len' nth' rank_of_def)
  have cB: "length (filter (\<lambda>w. wolf_type w = Beta) ws') = 1"
    using b ne by (intro count_one[of "srt ! 1"]) (auto simp: len' nth' rank_of_def)
  have cD: "length (filter (\<lambda>w. wolf_type w = Delta) ws') = 1"
    using b ne by (intro count_one[of "srt ! 2"]) (auto simp: len' nth' rank_of_def)
  have cO: "length (filter (\<lambda>w. wolf_type w = Omega) ws') = length ws - 3"
  proof -
    have "{i. i < length ws' \<and> wolf_type (ws' ! i) = Omega}
          = {0..<length ws} - {srt ! 0, srt ! 1, srt ! 2}"
      by (auto simp: len' nth' rank_of_def split: if_splits)
    moreover have "card ({0..<length ws} - {srt ! 0, srt ! 1, srt ! 2}) = length ws - 3"
      using b ne by (simp add: card_Diff_subset)
    ultimately show ?thesis by (simp add: length_filter_conv_card)
  qed
  have elem: "\<exists>i<length ws. w = (ws ! i)\<lparr>wolf_type := rank_of srt i\<rparr>" if "w \<in> set ws'" for w
    using that nth' len' by (metis in_set_conv_nth)
  have idx: "i = srt ! 0" if "rank_of srt i = Alpha" for i
    using that by (auto simp: rank_of_def split: if_splits)
  have idxB: "i = srt ! 1" if "rank_of srt i = Beta" for i
    using that by (auto simp: rank_of_def split: if_splits)
  have idxD: "i = srt ! 2" if "rank_of srt i = Delta" for i
    using that by (auto simp: rank_of_def split: if_splits)
  have AB: "js_le (score a) (score b)"
    if "a \<in> set ws'" "b \<in> set ws'" "wolf_type a = Alpha" "wolf_type b = Beta" for a b
    using elem[OF that(1)] elem[OF that(2)] that(3,4) le01 idx idxB by auto
  have BD: "js_le (score b) (score d)"
    if "b \<in> set ws'" "d \<in> set ws'" "wolf_type b = Beta" "wolf_type d = Delta" for b d
    using elem[OF that(1)] elem[OF that(2)] that(3,4) le12 idxB idxD by auto
  have DO: "js_le (score d) (score w)"
    if "d \<in> set ws'" "w \<in> set ws'" "wolf_type d = Delta" "wolf_type w = Omega" for d w
    using elem[OF that(1)] elem[OF that(2)] that(3,4) le2 idxD by auto
  have ph: "phaseRef (advancePhase e s) = CALCULATE" using assms(1) by (simp add: Let_def)
  show ?thesis
    using cA cB cD cO AB BD DO ph unfolding ws'_def ws_def by blast
qed

theorem rank_postcondition_witness:
  "phaseRef pack3 = RANK \<and> 3 \<le> length (wolvesRef pack3)
   \<and> list_all (\<lambda>w. score w \<noteq> NaN) (wolvesRef pack3)
   \<and> length (filter (\<lambda>w. wolf_type w = Alpha) (wolvesRef (advancePhase env0 pack3))) = 1
   \<and> length (filter (\<lambda>w. wolf_type w = Beta) (wolvesRef (advancePhase env0 pack3))) = 1
   \<and> length (filter (\<lambda>w. wolf_type w = Delta) (wolvesRef (advancePhase env0 pack3))) = 1
   \<and> gwo_ok pack3
   \<and> phaseRef (advancePhase env0 pack3) = CALCULATE"
proof -
  have h1: "phaseRef pack3 = RANK" by (simp add: pack3_def)
  have h2: "3 \<le> length (wolvesRef pack3)" by (simp add: pack3_def)
  have h3: "\<forall>w\<in>set (wolvesRef pack3). score w \<noteq> NaN" by (simp add: pack3_def mk_wolf_def)
  from h3 have h3': "list_all (\<lambda>w. score w \<noteq> NaN) (wolvesRef pack3)"
    by (simp add: list_all_iff)
  have h4: "gwo_ok pack3" by (simp add: gwo_ok_def wolf_ok_def pack3_def mk_wolf_def is_fin_def)
  from rank_postcondition[OF h1 h2 h3, of env0] h1 h2 h3' h4 show ?thesis by blast
qed

section \<open>Pausing\<close>

text \<open>
  C6: a call of \<open>animate\<close> while \<open>isRunning\<close> is false changes nothing of the state of
  any of the three engines: the cities, the pheromone matrix, the best path and distance
  and the iteration counter of ACO; the wolves (positions, targets, ranks, scores), the
  prey, the phase, the phase timer and the iteration counter of GWO; the bees, the best
  score and the iteration counter of Bees. Only the animation-frame handle is renewed.
\<close>

theorem paused_tick_is_noop:
  assumes "\<not> isRunning cfg"
  shows "(\<exists>a'. aco_animate cfg e a = Inr (a', [])
            \<and> cities a' = cities a \<and> pheromonesRef a' = pheromonesRef a
            \<and> bestPathRef a' = bestPathRef a \<and> bestDistRef a' = bestDistRef a
            \<and> aco_iterationRef a' = aco_iterationRef a)
       \<and> (wolvesRef (gwo_animate cfg e g) = wolvesRef g
            \<and> preyRef (gwo_animate cfg e g) = preyRef g
            \<and> phaseRef (gwo_animate cfg e g) = phaseRef g
            \<and> phaseTimerRef (gwo_animate cfg e g) = phaseTimerRef g
            \<and> gwo_iterationRef (gwo_animate cfg e g) = gwo_iterationRef g)
       \<and> (\<exists>b'. bees_animate cfg e b = Inr b'
            \<and> beesRef b' = beesRef b \<and> bestRef b' = bestRef b
            \<and> bees_iterationRef b' = bees_iterationRef b)"
  using assms by (simp add: aco_animate_def gwo_animate_def bees_animate_def)

theorem paused_tick_is_noop_witness:
  "\<not> isRunning paused
   \<and> (\<exists>a'. aco_animate paused env0 aco0 = Inr (a', [])
         \<and> pheromonesRef a' = pheromonesRef aco0 \<and> bestDistRef a' = bestDistRef aco0
         \<and> aco_iterationRef a' = aco_iterationRef aco0)
   \<and> wolvesRef (gwo_animate paused env0 pack3) = wolvesRef pack3
   \<and> phaseTimerRef (gwo_animate paused env0 pack3) = phaseTimerRef pack3
   \<and> (\<exists>b'. bees_animate paused env0 bees0 = Inr b' \<and> beesRef b' = beesRef bees0
         \<and> bees_iterationRef b' = bees_iterationRef bees0)"
proof -
  have h: "\<not> isRunning paused" by (simp add: paused_def)
  from paused_tick_is_noop[OF h, of env0 aco0 pack3 bees0] h show ?thesis by blast
qed

section \<open>Initialisation\<close>

text \<open>
  Initialisation with a population of 0 succeeds for both engines, and so does the
  initialisation of the wolves with a population of 2.
\<close>

theorem init_accepts_small_population:
  "\<not> isl (gwo_init (cfg_of 0) draws1 pack3) \<and> \<not> isl (gwo_init (cfg_of 2) draws1 pack3)
   \<and> \<not> isl (bees_init (cfg_of 0) draws1 bees0)"
  by (simp add: gwo_init_def bees_init_def cfg_of_def)

text \<open>
  C9, as the code has it: initialisation validates nothing and has no configuration
  error. For every population size below 3 the wolves are created (as many as the size
  says, none for a negative size), so packs of 0, 1 and 2 wolves are accepted. For a
  population size below 1 the bees are created when the size is 0 (an empty
  population); a negative size fails, with the RangeError of \<open>Array(n)\<close>.
\<close>

theorem init_without_validation:
  assumes "populationSize cfg < 3"
  shows "(\<exists>g'. gwo_init cfg rnd g = Inr g' \<and> length (wolvesRef g') = nat (populationSize cfg))
       \<and> (populationSize cfg < 1 \<longrightarrow>
            (if populationSize cfg < 0 then bees_init cfg rnd' b = Inl RangeError
             else \<exists>b'. bees_init cfg rnd' b = Inr b' \<and> beesRef b' = []))"
proof -
  from assms have small: "\<not> 2 ^ 32 \<le> populationSize cfg" by simp
  have "\<exists>g'. gwo_init cfg rnd g = Inr g' \<and> length (wolvesRef g') = nat (populationSize cfg)"
    using small by (simp add: gwo_init_def)
  moreover have "bees_init cfg rnd' b = Inl RangeError" if "populationSize cfg < 0"
    using that by (simp add: bees_init_def)
  moreover have "\<exists>b'. bees_init cfg rnd' b = Inr b' \<and> beesRef b' = []"
    if "populationSize cfg < 1" "\<not> populationSize cfg < 0"
  proof -
    from that have "populationSize cfg = 0" by simp
    then show ?thesis by (simp add: bees_init_def)
  qed
  ultimately show ?thesis by simp
qed

theorem init_without_validation_witness:
  "populationSize (cfg_of 0) < 3 \<and> populationSize (cfg_of 0) < 1
   \<and> (\<exists>g'. gwo_init (cfg_of 0) draws1 pack3 = Inr g' \<and> length (wolvesRef g') = 0)
   \<and> (\<exists>b'. bees_init (cfg_of 0) draws1 bees0 = Inr b' \<and> beesRef b' = [])
   \<and> (\<exists>g'. gwo_init (cfg_of 2) draws1 pack3 = Inr g' \<and> length (wolvesRef g') = 2)
   \<and> bees_init (cfg_of (- 1)) draws1 bees0 = Inl RangeError"
proof -
  have h0: "populationSize (cfg_of 0) < 3" "populationSize (cfg_of 0) < 1"
    "\<not> populationSize (cfg_of 0) < 0" "nat (populationSize (cfg_of 0)) = 0"
    by (simp_all add: cfg_of_def)
  have h2: "populationSize (cfg_of 2) < 3" "nat (populationSize (cfg_of 2)) = 2"
    by (simp_all add: cfg_of_def)
  have hm: "populationSize (cfg_of (- 1)) < 3" "populationSize (cfg_of (- 1)) < 1"
    "populationSize (cfg_of (- 1)) < 0"
    by (simp_all add: cfg_of_def)
  from init_without_validation[OF h0(1), of draws1 pack3 draws1 bees0]
    init_without_validation[OF h2(1), of draws1 pack3 draws1 bees0]
    init_without_validation[OF hm(1), of draws1 pack3 draws1 bees0] h0 h2 hm
  show ?thesis by auto
qed

section \<open>Ant Colony Optimization: roulette wheel selection\<close>

lemma roulette_loop_stuck:
  assumes "r = NaN \<or> r = PInf"
  shows "roulette_loop r ps cands i sel = sel"
  using assms
proof (induction ps arbitrary: r i)
  case Nil
  then show ?case by simp
next
  case (Cons p ps)
  then have "js_sub r p = NaN \<or> js_sub r p = PInf"
    by (cases p) (auto simp: js_sub_def)
  moreover from this have "\<not> js_le (js_sub r p) (Fin 0)" by auto
  ultimately show ?case using Cons.IH by (simp add: Let_def)
qed

text \<open>
  With two candidates of desirability 0 the total is 0, \<open>r\<close> starts at 0 and the first
  step already has \<open>r <= 0\<close>: the first candidate is selected, not the last.
\<close>

theorem roulette_zero_total_counterexample:
  "roulette_select [Fin 0, Fin 0] [3, 7] (Fin 0) (1 / 2) = Some 3
   \<and> roulette_select [Fin 0, Fin 0] [3, 7] (Fin 0) (1 / 2) \<noteq> Some (last [3, 7])"
  by (simp add: roulette_select_def js_sub_def candidate_at_def)

text \<open>
  C7, as the code has it: the selection among a non-empty array of candidates, one
  desirability each, never throws and always returns one of the candidates. When the
  total desirability is NaN or infinite it returns the last candidate; when the total is
  0 (and the first desirability is not negative) it returns the first candidate.
\<close>

theorem roulette_fallback:
  assumes "cands \<noteq> []" and "length probs = length cands" and "0 \<le> rand"
  shows "roulette_select probs cands sp rand \<in> Some ` set cands
       \<and> (sp = NaN \<or> sp = PInf \<longrightarrow> roulette_select probs cands sp rand = Some (last cands))
       \<and> (sp = Fin 0 \<and> js_le (Fin 0) (hd probs)
            \<longrightarrow> roulette_select probs cands sp rand = Some (hd cands))"
proof (intro conjI impI)
  show "roulette_select probs cands sp rand \<in> Some ` set cands"
    using assms(1,2) by (rule roulette_select_member)
next
  assume "sp = NaN \<or> sp = PInf"
  then have "js_mul (Fin rand) sp = NaN \<or> js_mul (Fin rand) sp = PInf"
    using assms(3) by (cases "rand = 0") auto
  then show "roulette_select probs cands sp rand = Some (last cands)"
    using assms(1) by (simp add: roulette_select_def roulette_loop_stuck)
next
  assume z: "sp = Fin 0 \<and> js_le (Fin 0) (hd probs)"
  from assms(1,2) obtain p ps where p: "probs = p # ps" by (cases probs) auto
  from z p have "js_le (js_sub (Fin 0) p) (Fin 0)"
    by (cases p) (auto simp: js_sub_def)
  with z p assms(1) show "roulette_select probs cands sp rand = Some (hd cands)"
    by (simp add: roulette_select_def candidate_at_def hd_conv_nth)
qed

theorem roulette_fallback_witness:
  "roulette_select [Fin 1, PInf] [3, 7] PInf (1 / 2) \<in> Some ` set [3, 7]
   \<and> roulette_select [Fin 1, PInf] [3, 7] PInf (1 / 2) = Some (last [3, 7])
   \<and> roulette_select [Fin 0, Fin 0] [3, 7] (Fin 0) (1 / 2) = Some (hd [3, 7])"
proof -
  have h1: "[3, 7 :: nat] \<noteq> []" by simp
  have h2: "length [Fin 1, PInf] = length [3, 7 :: nat]" by simp
  have h2': "length [Fin 0, Fin 0] = length [3, 7 :: nat]" by simp
  have h3: "(0 :: real) \<le> 1 / 2" by simp
  have h4: "js_le (Fin 0) (hd [Fin 0, Fin 0])" by simp
  from roulette_fallback[OF h1 h2 h3, of PInf] roulette_fallback[OF h1 h2' h3, of "Fin 0"] h4
  show ?thesis by blast
qed

section \<open>Bees Algorithm: the population size\<close>















section \<open>Ant Colony Optimization: the paths of the ants\<close>

lemma candidates_loop_ok:
  assumes "cur < length cs" "cur < length M" "\<forall>c\<in>set ns. c < length cs"
  shows "\<exists>r. candidates_loop cs M cur vis ns acc = Inr r"
  using assms(3)
proof (induction ns arbitrary: acc)
  case Nil
  then show ?case by (cases acc) simp
next
  case (Cons c ns)
  obtain probs cands sp where acc: "acc = (probs, cands, sp)" by (metis prod_cases3)
  from Cons.prems have c: "c < length cs" and ns: "\<forall>c\<in>set ns. c < length cs" by auto
  show ?case
    using Cons.IH[OF ns] assms(1,2) c
    by (simp add: acc distance_at_def pheromone_at_def Let_def del: js_pow.simps)
qed

lemma full_tour:
  assumes "distinct vis" "set vis \<subseteq> {0..<n}" "\<not> length vis < n"
  shows "set vis = {0..<n}"
proof -
  have "card {0..<n} \<le> card (set vis)"
    using assms(1,3) by (simp add: distinct_card)
  with assms(2) show ?thesis by (intro card_seteq) auto
qed

lemma while_unvisited_tour:
  assumes "aco_initialized cs M" "distinct vis" "set vis \<subseteq> {0..<CITY_COUNT}"
    and "currentCity < CITY_COUNT" "path = vis"
  shows "\<exists>p k'. while_unvisited cs M rnd k vis path currentCity = Inr (p, k') \<and> is_tour p"
  using assms
proof (induction cs M rnd k vis path currentCity rule: while_unvisited.induct)
  case (1 cs M rnd k vis path currentCity)
  show ?case
  proof (cases "length vis < CITY_COUNT")
    case False
    with "1.prems" have "set vis = {0..<CITY_COUNT}" by (intro full_tour) auto
    with False "1.prems" show ?thesis
      by (subst while_unvisited.simps) (simp add: is_tour_def)
  next
    case True
    from "1.prems" have "currentCity < length cs" "currentCity < length M"
      "\<forall>c\<in>set [0..<CITY_COUNT]. c < length cs"
      by (auto simp: aco_initialized_def)
    from candidates_loop_ok[OF this, of vis "([], [], Fin 0)"]
    obtain probs cands sp where
      cl: "candidates_loop cs M currentCity vis [0..<CITY_COUNT] ([], [], Fin 0) = Inr (probs, cands, sp)"
      by (metis prod_cases3)
    from candidates_loop_result[OF cl]
    have c: "cands = filter (\<lambda>c. c \<notin> set vis) [0..<CITY_COUNT]" and l: "length probs = length cands"
      by auto
    from c unvisited_nonempty[OF True] have "cands \<noteq> []" by simp
    from roulette_select_member[OF this l, of sp "rnd k"]
    obtain selected where rs: "roulette_select probs cands sp (rnd k) = Some selected" by auto
    from selected_unvisited[OF cl rs True] have new: "selected \<notin> set vis" "selected < CITY_COUNT"
      by auto
    then have sa: "set_add selected vis = vis @ [selected]" by (simp add: set_add_def)
    have "\<exists>p k'. while_unvisited cs M rnd (Suc k) (set_add selected vis) (path @ [selected]) selected
              = Inr (p, k') \<and> is_tour p"
      using "1.prems" new sa
      by (intro "1.IH"[OF True cl refl refl rs]) auto
    then show ?thesis
      using True cl rs by (subst while_unvisited.simps) simp
  qed
qed

lemma start_city_in_range:
  assumes "draws_ok rnd"
  shows "nat \<lfloor>rnd k * real CITY_COUNT\<rfloor> < CITY_COUNT"
proof -
  from assms have r: "0 \<le> rnd k" "rnd k < 1" by (auto simp: draws_ok_def)
  have pos: "0 < real CITY_COUNT" by (simp add: CITY_COUNT_def)
  from r(2) pos have "rnd k * real CITY_COUNT < real CITY_COUNT" by simp
  then have "\<lfloor>rnd k * real CITY_COUNT\<rfloor> < int CITY_COUNT" by (simp add: floor_less_iff)
  moreover have "0 < int CITY_COUNT" by (simp add: CITY_COUNT_def)
  ultimately show ?thesis by linarith
qed

lemma build_path_tour:
  assumes "aco_initialized cs M" "draws_ok rnd"
  shows "\<exists>p k'. build_path cs M rnd k = Inr (p, k') \<and> is_tour p"
  unfolding build_path_def Let_def
  using assms(1) start_city_in_range[OF assms(2), of k]
  by (intro while_unvisited_tour) auto

lemma path_edges_set: "(u, v) \<in> set (path_edges p) \<Longrightarrow> u \<in> set p \<and> v \<in> set p"
  by (induction p rule: path_edges.induct) auto

lemma tour_edges_set:
  "p \<noteq> [] \<Longrightarrow> (u, v) \<in> set (tour_edges p) \<Longrightarrow> u \<in> set p \<and> v \<in> set p"
  by (auto simp: tour_edges_def dest: path_edges_set)

lemma is_tour_bounds: "is_tour p \<Longrightarrow> p \<noteq> [] \<and> (\<forall>c\<in>set p. c < CITY_COUNT)"
  by (auto simp: is_tour_def CITY_COUNT_def)

lemma sum_edges_ok:
  "\<forall>(u, v)\<in>set es. u < length cs \<and> v < length cs \<Longrightarrow> \<exists>d'. sum_edges cs es d = Inr d'"
  by (induction es arbitrary: d) (auto simp: distance_at_def)

lemma tour_length_ok:
  assumes "is_tour p" "CITY_COUNT \<le> length cs"
  shows "\<exists>d. tour_length cs p = Inr d"
proof -
  from is_tour_bounds[OF assms(1)] have ne: "p \<noteq> []" and b: "\<forall>c\<in>set p. c < CITY_COUNT"
    by auto
  have "\<forall>(u, v)\<in>set (tour_edges p). u < length cs \<and> v < length cs"
    using tour_edges_set[OF ne] b assms(2) by fastforce
  from sum_edges_ok[OF this] ne show ?thesis by (simp add: tour_length_def)
qed

lemma distance_nonneg:
  assumes "is_fin (pt_x p)" "is_fin (pt_y p)" "is_fin (pt_x q)" "is_fin (pt_y q)"
  shows "nonneg_fin (distance p q)"
  using assms
  by (cases "pt_x p"; cases "pt_y p"; cases "pt_x q"; cases "pt_y q")
     (simp_all add: is_fin_def nonneg_fin_def distance_def js_sub_def numeral_2_eq_2 not_less)

lemma sum_edges_nonneg:
  assumes "\<forall>p\<in>set cs. is_fin (pt_x p) \<and> is_fin (pt_y p)"
  shows "nonneg_fin d \<Longrightarrow> sum_edges cs es d = Inr d' \<Longrightarrow> nonneg_fin d'"
proof (induction es arbitrary: d)
  case Nil
  then show ?case by simp
next
  case (Cons e es)
  obtain u v where e: "e = (u, v)" by (cases e) auto
  from Cons.prems(2) e obtain x where x: "distance_at cs u v = Inr x"
    and rest: "sum_edges cs es (js_add d x) = Inr d'"
    by (auto split: sum.splits)
  from x have "u < length cs" "v < length cs" "x = distance (cs ! u) (cs ! v)"
    by (auto simp: distance_at_def split: if_splits)
  with assms have "nonneg_fin x" by (auto intro!: distance_nonneg)
  with Cons.prems(1) have "nonneg_fin (js_add d x)"
    by (cases d; cases x) (auto simp: nonneg_fin_def)
  from Cons.IH[OF this rest] show ?case .
qed

lemma tour_length_nonneg:
  assumes "cities_ok cs" "tour_length cs p = Inr d"
  shows "nonneg_fin d"
proof -
  from assms(2) have "sum_edges cs (tour_edges p) (Fin 0) = Inr d"
    by (auto simp: tour_length_def split: if_splits)
  moreover have "nonneg_fin (Fin 0)" by (simp add: nonneg_fin_def)
  ultimately show ?thesis using assms(1) sum_edges_nonneg[of cs "Fin 0" "tour_edges p" d]
    by (auto simp: cities_ok_def)
qed

lemma js_lt_trans: "js_lt a b \<Longrightarrow> js_lt b c \<Longrightarrow> js_lt a c"
  by (cases a; cases b; cases c) auto

text \<open>What the loop over the ants returns.\<close>

lemma ants_loop_spec:
  assumes "aco_initialized cs M" "draws_ok rnd"
  shows "\<exists>newp newd bp' bd'.
           ants_loop cs M rnd n k (paths, dists, bp, bd) = Inr (paths @ newp, dists @ newd, bp', bd')
         \<and> length newp = n
         \<and> list_all2 (\<lambda>p d. is_tour p \<and> tour_length cs p = Inr d) newp newd
         \<and> ((bp' = bp \<and> bd' = bd) \<or> (js_lt bd' bd \<and> (bp', bd') \<in> set (zip newp newd)))"
proof (induction n arbitrary: k paths dists bp bd)
  case 0
  then show ?case by simp
next
  case (Suc n)
  from build_path_tour[OF assms, of k] obtain p k' where
    bp: "build_path cs M rnd k = Inr (p, k')" and tour: "is_tour p" by auto
  from tour_length_ok[OF tour] assms(1) obtain d where d: "tour_length cs p = Inr d"
    by (auto simp: aco_initialized_def)
  define bp1 where "bp1 = (if js_lt d bd then p else bp)"
  define bd1 where "bd1 = (if js_lt d bd then d else bd)"
  from Suc.IH[of k' "paths @ [p]" "dists @ [d]" bp1 bd1] obtain newp newd bp' bd' where
    run: "ants_loop cs M rnd n k' (paths @ [p], dists @ [d], bp1, bd1)
          = Inr ((paths @ [p]) @ newp, (dists @ [d]) @ newd, bp', bd')"
    and len: "length newp = n"
    and all: "list_all2 (\<lambda>p d. is_tour p \<and> tour_length cs p = Inr d) newp newd"
    and best: "(bp' = bp1 \<and> bd' = bd1) \<or> (js_lt bd' bd1 \<and> (bp', bd') \<in> set (zip newp newd))"
    by blast
  have step: "ants_loop cs M rnd (Suc n) k (paths, dists, bp, bd)
              = Inr (paths @ (p # newp), dists @ (d # newd), bp', bd')"
    using bp d run by (simp add: bp1_def bd1_def)
  have all': "list_all2 (\<lambda>p d. is_tour p \<and> tour_length cs p = Inr d) (p # newp) (d # newd)"
    using all tour d by simp
  have best': "(bp' = bp \<and> bd' = bd)
               \<or> (js_lt bd' bd \<and> (bp', bd') \<in> set (zip (p # newp) (d # newd)))"
  proof (cases "js_lt d bd")
    case True
    then have "bp1 = p" "bd1 = d" by (simp_all add: bp1_def bd1_def)
    with best True show ?thesis by (auto intro: js_lt_trans)
  next
    case False
    then have "bp1 = bp" "bd1 = bd" by (simp_all add: bp1_def bd1_def)
    with best show ?thesis by auto
  qed
  show ?case
    using step len all' best' by (intro exI[of _ "p # newp"] exI[of _ "d # newd"]) auto
qed

section \<open>Ant Colony Optimization: the pheromone matrix\<close>

lemma pher_ok_init: "pher_ok (replicate CITY_COUNT (replicate CITY_COUNT (Fin 1)))"
  by (simp add: pher_ok_def)

lemma js_mul_pos: "js_lt (Fin 0) a \<Longrightarrow> 0 < c \<Longrightarrow> js_lt (Fin 0) (js_mul a (Fin c))"
  by (cases a) auto

lemma js_add_pos: "js_lt (Fin 0) a \<Longrightarrow> js_le (Fin 0) c \<Longrightarrow> js_lt (Fin 0) (js_add a c)"
  by (cases a; cases c) auto

lemma evaporate_row_nth:
  assumes "length row = CITY_COUNT" "j < CITY_COUNT"
  shows "length (evaporate_row rho row) = CITY_COUNT"
    and "evaporate_row rho row ! j = js_mul (row ! j) (Fin (1 - rho))"
  using assms by (simp_all add: evaporate_row_def nth_append)

lemma evaporate_ok:
  assumes "pher_ok M" "rho < 1"
  shows "\<exists>M'. evaporate rho M = Inr M' \<and> pher_ok M'"
proof -
  from assms(1) have len: "length M = CITY_COUNT"
    and rows: "\<And>i. i < CITY_COUNT \<Longrightarrow> length (M ! i) = CITY_COUNT"
    and ent: "\<And>i j. i < CITY_COUNT \<Longrightarrow> j < CITY_COUNT
                \<Longrightarrow> js_lt (Fin 0) (M ! i ! j) \<and> M ! i ! j = M ! j ! i"
    by (auto simp: pher_ok_def)
  have ev: "evaporate rho M = Inr (map (evaporate_row rho) M)"
    using len by (simp add: evaporate_def)
  have "pher_ok (map (evaporate_row rho) M)"
    unfolding pher_ok_def
  proof (intro conjI allI impI)
    show "length (map (evaporate_row rho) M) = CITY_COUNT" using len by simp
  next
    fix i assume "i < CITY_COUNT"
    then show "length (map (evaporate_row rho) M ! i) = CITY_COUNT"
      using len rows evaporate_row_nth(1)[of "M ! i" 0 rho]
      by (simp add: CITY_COUNT_def)
  next
    fix i j assume ij: "i < CITY_COUNT" "j < CITY_COUNT"
    then have e1: "map (evaporate_row rho) M ! i ! j = js_mul (M ! i ! j) (Fin (1 - rho))"
      using len rows by (simp add: evaporate_row_nth(2))
    from ij ent[of i j] assms(2) show "js_lt (Fin 0) (map (evaporate_row rho) M ! i ! j)"
      unfolding e1 by (intro js_mul_pos) auto
  next
    fix i j assume ij: "i < CITY_COUNT" "j < CITY_COUNT"
    then have "map (evaporate_row rho) M ! i ! j = js_mul (M ! i ! j) (Fin (1 - rho))"
      and "map (evaporate_row rho) M ! j ! i = js_mul (M ! j ! i) (Fin (1 - rho))"
      using len rows by (simp_all add: evaporate_row_nth(2))
    with ent[OF ij] show "map (evaporate_row rho) M ! i ! j = map (evaporate_row rho) M ! j ! i"
      by simp
  qed
  with ev show ?thesis by simp
qed

lemma evaporate_rows:
  assumes "CITY_COUNT \<le> length M"
  shows "\<exists>M'. evaporate rho M = Inr M' \<and> length M' = length M"
  using assms by (simp add: evaporate_def)

lemma add_at_rows:
  "u < length M \<Longrightarrow> \<exists>M'. add_at M u v c = Inr M' \<and> length M' = length M"
  by (simp add: add_at_def)

lemma deposit_edges_rows:
  "\<forall>(u, v)\<in>set es. u < length M \<and> v < length M
   \<Longrightarrow> \<exists>M'. deposit_edges M es c = Inr M' \<and> length M' = length M"
proof (induction es arbitrary: M)
  case Nil
  then show ?case by simp
next
  case (Cons e es)
  obtain u v where e: "e = (u, v)" by (cases e) auto
  with Cons.prems have uv: "u < length M" "v < length M" by auto
  from add_at_rows[OF uv(1), of v c] obtain M1 where
    m1: "add_at M u v c = Inr M1" "length M1 = length M" by auto
  with uv add_at_rows[of v M1 u c] obtain M2 where
    m2: "add_at M1 v u c = Inr M2" "length M2 = length M" by auto
  with Cons.prems have "\<forall>(u, v)\<in>set es. u < length M2 \<and> v < length M2" by auto
  from Cons.IH[OF this] m1 m2 e show ?case by auto
qed

lemma deposit_paths_rows:
  assumes "CITY_COUNT \<le> length M" "\<forall>(p, d)\<in>set pds. is_tour p"
  shows "\<exists>M'. deposit_paths M pds = Inr M' \<and> length M' = length M"
  using assms
proof (induction pds arbitrary: M)
  case Nil
  then show ?case by simp
next
  case (Cons pd pds)
  obtain p d where pd: "pd = (p, d)" by (cases pd) auto
  with Cons.prems have tour: "is_tour p" by auto
  from is_tour_bounds[OF tour] have ne: "p \<noteq> []" and b: "\<forall>c\<in>set p. c < CITY_COUNT" by auto
  have "\<forall>(u, v)\<in>set (tour_edges p). u < length M \<and> v < length M"
    using tour_edges_set[OF ne] b Cons.prems(1) by fastforce
  from deposit_edges_rows[OF this, of "js_div (Fin 100) d"] obtain M1 where
    m1: "deposit_edges M (tour_edges p) (js_div (Fin 100) d) = Inr M1" "length M1 = length M"
    by auto
  with Cons.prems have "CITY_COUNT \<le> length M1" "\<forall>(p, d)\<in>set pds. is_tour p" by auto
  from Cons.IH[OF this] m1 pd ne show ?case by auto
qed

lemma twice_swap:
  "(if B then js_add (if A then js_add m c else m) c else (if A then js_add m c else m))
   = (if A then js_add (if B then js_add m c else m) c else (if B then js_add m c else m))"
  by (cases A; cases B) simp_all

lemma deposit_edge_ok:
  assumes "pher_ok M" "u < CITY_COUNT" "v < CITY_COUNT" "js_le (Fin 0) c"
  shows "\<exists>M1 M2. add_at M u v c = Inr M1 \<and> add_at M1 v u c = Inr M2 \<and> pher_ok M2"
proof -
  from assms(1) have len: "length M = CITY_COUNT"
    and rows: "\<And>i. i < CITY_COUNT \<Longrightarrow> length (M ! i) = CITY_COUNT"
    and pos: "\<And>i j. i < CITY_COUNT \<Longrightarrow> j < CITY_COUNT \<Longrightarrow> js_lt (Fin 0) (M ! i ! j)"
    and sym: "\<And>i j. i < CITY_COUNT \<Longrightarrow> j < CITY_COUNT \<Longrightarrow> M ! i ! j = M ! j ! i"
    by (auto simp: pher_ok_def)
  define M1 where "M1 = M[u := (M ! u)[v := js_add (M ! u ! v) c]]"
  define M2 where "M2 = M1[v := (M1 ! v)[u := js_add (M1 ! v ! u) c]]"
  have a1: "add_at M u v c = Inr M1"
    using assms(2,3) len rows by (simp add: add_at_def M1_def)
  have len1: "length M1 = CITY_COUNT" by (simp add: M1_def len)
  have rows1: "length (M1 ! i) = CITY_COUNT" if "i < CITY_COUNT" for i
    using that len rows assms(2,3) by (simp add: M1_def nth_list_update)
  have a2: "add_at M1 v u c = Inr M2"
    using assms(2,3) len1 rows1 by (simp add: add_at_def M2_def)
  have e1: "M1 ! i ! j = (if i = u \<and> j = v then js_add (M ! i ! j) c else M ! i ! j)"
    if "i < CITY_COUNT" "j < CITY_COUNT" for i j
    using that len rows assms(2,3) by (auto simp: M1_def nth_list_update)
  have e2: "M2 ! i ! j = (if i = v \<and> j = u then js_add (M1 ! i ! j) c else M1 ! i ! j)"
    if "i < CITY_COUNT" "j < CITY_COUNT" for i j
    using that len1 rows1 assms(2,3) by (auto simp: M2_def nth_list_update)
  have len2: "length M2 = CITY_COUNT" by (simp add: M2_def len1)
  have rows2: "length (M2 ! i) = CITY_COUNT" if "i < CITY_COUNT" for i
    using that len1 rows1 assms(2,3) by (simp add: M2_def nth_list_update)
  have pos1: "js_lt (Fin 0) (M1 ! i ! j)" if "i < CITY_COUNT" "j < CITY_COUNT" for i j
  proof (cases "i = u \<and> j = v")
    case True
    then show ?thesis
      unfolding e1[OF that] using js_add_pos[OF pos[OF that] assms(4)] by auto
  next
    case False
    then show ?thesis unfolding e1[OF that] using pos[OF that] by auto
  qed
  have pos2: "js_lt (Fin 0) (M2 ! i ! j)" if "i < CITY_COUNT" "j < CITY_COUNT" for i j
  proof (cases "i = v \<and> j = u")
    case True
    then show ?thesis
      unfolding e2[OF that] using js_add_pos[OF pos1[OF that] assms(4)] by auto
  next
    case False
    then show ?thesis unfolding e2[OF that] using pos1[OF that] by auto
  qed
  have e1c: "M1 ! j ! i = (if i = v \<and> j = u then js_add (M ! j ! i) c else M ! j ! i)"
    if "i < CITY_COUNT" "j < CITY_COUNT" for i j
    using that len rows assms(2,3) by (auto simp: M1_def nth_list_update)
  have e2c: "M2 ! j ! i = (if i = u \<and> j = v then js_add (M1 ! j ! i) c else M1 ! j ! i)"
    if "i < CITY_COUNT" "j < CITY_COUNT" for i j
    using that len1 rows1 assms(2,3) by (auto simp: M2_def nth_list_update)
  have sym2: "M2 ! i ! j = M2 ! j ! i" if "i < CITY_COUNT" "j < CITY_COUNT" for i j
  proof -
    have "M2 ! i ! j = (if i = v \<and> j = u
                        then js_add (if i = u \<and> j = v then js_add (M ! i ! j) c else M ! i ! j) c
                        else (if i = u \<and> j = v then js_add (M ! i ! j) c else M ! i ! j))"
      by (simp only: e2[OF that] e1[OF that])
    moreover
    have "M2 ! j ! i = (if i = u \<and> j = v
                        then js_add (if i = v \<and> j = u then js_add (M ! i ! j) c else M ! i ! j) c
                        else (if i = v \<and> j = u then js_add (M ! i ! j) c else M ! i ! j))"
      by (simp only: e2c[OF that] e1c[OF that] sym[OF that(2,1)])
    ultimately show ?thesis by (simp only: twice_swap)
  qed
  have "pher_ok M2"
    unfolding pher_ok_def using len2 rows2 pos2 sym2 by blast
  with a1 a2 show ?thesis by blast
qed

lemma deposit_edges_ok:
  assumes "js_le (Fin 0) c"
  shows "pher_ok M \<Longrightarrow> \<forall>(u, v)\<in>set es. u < CITY_COUNT \<and> v < CITY_COUNT
         \<Longrightarrow> \<exists>M'. deposit_edges M es c = Inr M' \<and> pher_ok M'"
proof (induction es arbitrary: M)
  case Nil
  then show ?case by simp
next
  case (Cons e es)
  obtain u v where e: "e = (u, v)" by (cases e) auto
  with Cons.prems have uv: "u < CITY_COUNT" "v < CITY_COUNT" by auto
  from deposit_edge_ok[OF Cons.prems(1) uv assms] obtain M1 M2 where
    m: "add_at M u v c = Inr M1" "add_at M1 v u c = Inr M2" "pher_ok M2" by blast
  from Cons.prems have "\<forall>(u, v)\<in>set es. u < CITY_COUNT \<and> v < CITY_COUNT" by auto
  from Cons.IH[OF m(3) this] m e show ?case by auto
qed

lemma contribution_nonneg: "nonneg_fin d \<Longrightarrow> js_le (Fin 0) (js_div (Fin 100) d)"
  by (cases d) (auto simp: nonneg_fin_def)

lemma deposit_paths_ok:
  "pher_ok M \<Longrightarrow> \<forall>(p, d)\<in>set pds. is_tour p \<and> nonneg_fin d
   \<Longrightarrow> \<exists>M'. deposit_paths M pds = Inr M' \<and> pher_ok M'"
proof (induction pds arbitrary: M)
  case Nil
  then show ?case by simp
next
  case (Cons pd pds)
  obtain p d where pd: "pd = (p, d)" by (cases pd) auto
  with Cons.prems have tour: "is_tour p" and d: "nonneg_fin d" by auto
  from is_tour_bounds[OF tour] have ne: "p \<noteq> []" and b: "\<forall>c\<in>set p. c < CITY_COUNT" by auto
  have "\<forall>(u, v)\<in>set (tour_edges p). u < CITY_COUNT \<and> v < CITY_COUNT"
    using tour_edges_set[OF ne] b by fastforce
  from deposit_edges_ok[OF contribution_nonneg[OF d] Cons.prems(1) this] obtain M1 where
    m1: "deposit_edges M (tour_edges p) (js_div (Fin 100) d) = Inr M1" "pher_ok M1" by auto
  from Cons.prems have "\<forall>(p, d)\<in>set pds. is_tour p \<and> nonneg_fin d" by auto
  from Cons.IH[OF m1(2) this] m1 pd ne show ?case by auto
qed

section \<open>Ant Colony Optimization: one call of animate, and runs\<close>

lemma aco_inv_initialized: "aco_inv s \<Longrightarrow> aco_initialized (cities s) (pheromonesRef s)"
  by (simp add: aco_inv_def aco_initialized_def cities_ok_def pher_ok_def)

lemma aco_init_inv: "aco_inv (aco_init rnd s0)"
  by (simp add: aco_inv_def aco_init_def cities_ok_def pher_ok_init init_city_def is_fin_def)

lemma aco_animate_spec:
  assumes "aco_initialized (cities s) (pheromonesRef s)" "draws_ok (draws e)"
  shows "\<exists>s' paths. aco_animate cfg e s = Inr (s', paths)
       \<and> cities s' = cities s \<and> length (pheromonesRef s') = length (pheromonesRef s)
       \<and> (isRunning cfg \<and> ctx_ok e \<longrightarrow> length paths = nat (populationSize cfg))
       \<and> (\<forall>p\<in>set paths. is_tour p)
       \<and> ((bestPathRef s' = bestPathRef s \<and> bestDistRef s' = bestDistRef s)
          \<or> (js_lt (bestDistRef s') (bestDistRef s) \<and> bestPathRef s' \<in> set paths
             \<and> tour_length (cities s) (bestPathRef s') = Inr (bestDistRef s')))
       \<and> (aco_inv s \<longrightarrow> aco_inv s')"
proof (cases "isRunning cfg \<and> ctx_ok e")
  case False
  then show ?thesis by (auto simp: aco_animate_def aco_inv_def)
next
  case True
  define cs where "cs = cities s"
  define M where "M = pheromonesRef s"
  from ants_loop_spec[OF assms[folded cs_def M_def], of "nat (populationSize cfg)" 0 "[]" "[]"
      "bestPathRef s" "bestDistRef s"]
  obtain newp newd bp' bd' where
    run: "ants_loop cs M (draws e) (nat (populationSize cfg)) 0 ([], [], bestPathRef s, bestDistRef s)
          = Inr (newp, newd, bp', bd')"
    and len: "length newp = nat (populationSize cfg)"
    and all: "list_all2 (\<lambda>p d. is_tour p \<and> tour_length cs p = Inr d) newp newd"
    and best: "(bp' = bestPathRef s \<and> bd' = bestDistRef s)
               \<or> (js_lt bd' (bestDistRef s) \<and> (bp', bd') \<in> set (zip newp newd))"
    by auto
  from all have zip: "\<forall>(p, d)\<in>set (zip newp newd). is_tour p \<and> tour_length cs p = Inr d"
    by (simp add: list_all2_iff)
  from all have tours: "\<forall>p\<in>set newp. is_tour p"
    by (auto simp: list_all2_conv_all_nth in_set_conv_nth)
  from assms(1) have rowsM: "CITY_COUNT \<le> length M" by (simp add: aco_initialized_def M_def)
  from evaporate_rows[OF this, of "0.1"] obtain M1 where
    ev: "evaporate 0.1 M = Inr M1" and len1: "length M1 = length M" by auto
  have "\<forall>(p, d)\<in>set (zip newp newd). is_tour p" using zip by auto
  from deposit_paths_rows[OF _ this, of M1] rowsM len1 obtain M2 where
    dep: "deposit_paths M1 (zip newp newd) = Inr M2" and len2: "length M2 = length M1" by auto
  define s' where "s' = s\<lparr> aco_iterationRef := aco_iterationRef s + 1, bestPathRef := bp',
                            bestDistRef := bd', pheromonesRef := M2 \<rparr>"
  have res: "aco_animate cfg e s = Inr (s', newp)"
    using True run ev dep by (simp add: aco_animate_def cs_def M_def s'_def)
  have b': "(bestPathRef s' = bestPathRef s \<and> bestDistRef s' = bestDistRef s)
          \<or> (js_lt (bestDistRef s') (bestDistRef s) \<and> bestPathRef s' \<in> set newp
             \<and> tour_length (cities s) (bestPathRef s') = Inr (bestDistRef s'))"
    using best zip by (auto simp: s'_def cs_def dest: set_zip_leftD)
  have inv: "aco_inv s'" if "aco_inv s"
  proof -
    from that have cok: "cities_ok cs" and pok: "pher_ok M"
      by (simp_all add: aco_inv_def cs_def M_def)
    from evaporate_ok[OF pok, of "0.1"] ev have p1: "pher_ok M1" by auto
    have "\<forall>(p, d)\<in>set (zip newp newd). is_tour p \<and> nonneg_fin d"
      using zip tour_length_nonneg[OF cok] by auto
    from deposit_paths_ok[OF p1 this] dep have "pher_ok M2" by auto
    with cok show ?thesis by (simp add: aco_inv_def s'_def cs_def)
  qed
  show ?thesis
    using res len tours b' inv len1 len2
    by (intro exI[of _ s'] exI[of _ newp]) (auto simp: s'_def M_def)
qed

lemma aco_run_spec:
  assumes "\<forall>(cfg, e)\<in>set ces. draws_ok (draws e)"
  shows "aco_inv s \<Longrightarrow>
         \<exists>s'. aco_run ces s = Inr s' \<and> aco_inv s'
            \<and> ((bestPathRef s' = bestPathRef s \<and> bestDistRef s' = bestDistRef s)
               \<or> js_lt (bestDistRef s') (bestDistRef s))"
  using assms
proof (induction ces arbitrary: s)
  case Nil
  then show ?case by simp
next
  case (Cons ce ces)
  obtain cfg e where ce: "ce = (cfg, e)" by (cases ce) auto
  with Cons.prems have d: "draws_ok (draws e)" and rest: "\<forall>(cfg, e)\<in>set ces. draws_ok (draws e)"
    by auto
  from aco_animate_spec[OF aco_inv_initialized[OF Cons.prems(1)] d, of cfg]
  obtain s1 paths where
    step: "aco_animate cfg e s = Inr (s1, paths)" and inv1: "aco_inv s1"
    and b1: "(bestPathRef s1 = bestPathRef s \<and> bestDistRef s1 = bestDistRef s)
             \<or> js_lt (bestDistRef s1) (bestDistRef s)"
    using Cons.prems(1) by blast
  from Cons.IH[OF inv1 rest] obtain s' where
    run: "aco_run ces s1 = Inr s'" and inv': "aco_inv s'"
    and b2: "(bestPathRef s' = bestPathRef s1 \<and> bestDistRef s' = bestDistRef s1)
             \<or> js_lt (bestDistRef s') (bestDistRef s1)"
    by blast
  have "(bestPathRef s' = bestPathRef s \<and> bestDistRef s' = bestDistRef s)
        \<or> js_lt (bestDistRef s') (bestDistRef s)"
    using b1 b2 by (auto intro: js_lt_trans)
  with step run inv' ce show ?case by simp
qed

lemma draws1_ok: "draws_ok draws1"
  by (simp add: draws_ok_def draws1_def)

text \<open>
  C1: on an initialised state (the city list and the pheromone matrix hold
  \<open>CITY_COUNT\<close> entries) and with random draws in the interval from 0 to 1, a call of
  \<open>animate\<close> returns without throwing; when it runs it builds \<open>populationSize\<close>
  paths, and every path it builds holds each of the \<open>CITY_COUNT\<close> city indices exactly
  once. The state it leaves is initialised again, so this holds for every tick.
\<close>

theorem ants_paths_are_permutations:
  assumes "aco_initialized (cities s) (pheromonesRef s)" and "draws_ok (draws e)"
  shows "\<exists>s' paths. aco_animate cfg e s = Inr (s', paths)
       \<and> (isRunning cfg \<and> ctx_ok e \<longrightarrow> length paths = nat (populationSize cfg))
       \<and> (\<forall>p\<in>set paths. distinct p \<and> set p = {0..<CITY_COUNT} \<and> length p = CITY_COUNT)
       \<and> aco_initialized (cities s') (pheromonesRef s')"
proof -
  from aco_animate_spec[OF assms, of cfg] obtain s' paths where
    r: "aco_animate cfg e s = Inr (s', paths)" "cities s' = cities s"
       "length (pheromonesRef s') = length (pheromonesRef s)"
       "isRunning cfg \<and> ctx_ok e \<longrightarrow> length paths = nat (populationSize cfg)"
       "\<forall>p\<in>set paths. is_tour p"
    by blast
  have "distinct p \<and> set p = {0..<CITY_COUNT} \<and> length p = CITY_COUNT" if "p \<in> set paths" for p
  proof -
    from r(5) that have t: "distinct p" "set p = {0..<CITY_COUNT}" by (auto simp: is_tour_def)
    from t have "length p = card {0..<CITY_COUNT}" by (metis distinct_card)
    with t show ?thesis by simp
  qed
  moreover have "aco_initialized (cities s') (pheromonesRef s')"
    using assms(1) r(2,3) by (simp add: aco_initialized_def)
  ultimately show ?thesis using r(1,4) by blast
qed

theorem ants_paths_witness:
  "aco_initialized (cities aco0) (pheromonesRef aco0) \<and> draws_ok (draws env1)
   \<and> (\<exists>s' paths. aco_animate (cfg_of 10) env1 aco0 = Inr (s', paths) \<and> length paths = 10
         \<and> list_all (\<lambda>p. distinct p \<and> set p = {0..<CITY_COUNT}) paths)"
proof -
  have h1: "aco_initialized (cities aco0) (pheromonesRef aco0)"
    unfolding aco0_def by (rule aco_inv_initialized[OF aco_init_inv])
  have h2: "draws_ok (draws env1)" by (simp add: env1_def draws1_ok)
  have h3: "isRunning (cfg_of 10) \<and> ctx_ok env1" "nat (populationSize (cfg_of 10)) = 10"
    by (simp_all add: cfg_of_def env1_def)
  from ants_paths_are_permutations[OF h1 h2, of "cfg_of 10"] h1 h2 h3 show ?thesis
    unfolding list_all_iff by fastforce
qed

text \<open>
  C4: from the all-ones initialisation, after any number of calls of \<open>animate\<close>
  (running or paused, with any population size, the random draws in the interval from 0
  to 1) no call has thrown and the pheromone matrix is symmetric with every entry
  greater than 0.
\<close>

theorem pheromones_symmetric_positive:
  assumes "\<forall>(cfg, e)\<in>set ces. draws_ok (draws e)"
  shows "\<exists>s'. aco_run ces (aco_init rnd s0) = Inr s'
       \<and> (\<forall>i<CITY_COUNT. \<forall>j<CITY_COUNT.
             pheromonesRef s' ! i ! j = pheromonesRef s' ! j ! i
             \<and> js_lt (Fin 0) (pheromonesRef s' ! i ! j))"
proof -
  from aco_run_spec[OF assms aco_init_inv, of rnd s0] obtain s' where
    "aco_run ces (aco_init rnd s0) = Inr s'" "aco_inv s'" by blast
  then show ?thesis by (auto simp: aco_inv_def pher_ok_def)
qed

theorem pheromones_witness:
  "list_all (\<lambda>(cfg, e). draws_ok (draws e)) [(cfg_of 10, env1), (paused, env0), (cfg_of 10, env0)]
   \<and> (\<exists>s'. aco_run [(cfg_of 10, env1), (paused, env0), (cfg_of 10, env0)] aco0 = Inr s'
         \<and> pheromonesRef s' ! 0 ! 1 = pheromonesRef s' ! 1 ! 0
         \<and> js_lt (Fin 0) (pheromonesRef s' ! 0 ! 1))"
proof -
  have d0: "draws_ok (draws env0)" by (simp add: env0_def draws_ok_def)
  have d1: "draws_ok (draws env1)" by (simp add: env1_def draws1_ok)
  have h: "\<forall>(cfg, e)\<in>set [(cfg_of 10, env1), (paused, env0), (cfg_of 10, env0)]. draws_ok (draws e)"
    using d0 d1 by simp
  have c: "0 < CITY_COUNT" "1 < CITY_COUNT" by (simp_all add: CITY_COUNT_def)
  from pheromones_symmetric_positive[OF h, of draws1 aco_blank] c d0 d1 show ?thesis
    unfolding aco0_def by fastforce
qed

text \<open>
  C5: the best distance starts at \<open>Infinity\<close>. Over any sequence of calls of
  \<open>animate\<close> from a well-formed state, either the best path and distance are the ones
  before, or the best distance is strictly smaller than before: it never increases. In
  one call they are replaced only by a path of that call whose tour length is strictly
  smaller than the best distance before; a tie replaces nothing.
\<close>

theorem best_distance_never_increases:
  assumes "aco_inv s" and "\<forall>(cfg, e)\<in>set ces. draws_ok (draws e)" and "draws_ok (draws e)"
  shows "(\<exists>s'. aco_run ces s = Inr s'
            \<and> ((bestPathRef s' = bestPathRef s \<and> bestDistRef s' = bestDistRef s)
               \<or> js_lt (bestDistRef s') (bestDistRef s)))
       \<and> (\<exists>s' paths. aco_animate cfg e s = Inr (s', paths)
            \<and> ((bestPathRef s' = bestPathRef s \<and> bestDistRef s' = bestDistRef s)
               \<or> (js_lt (bestDistRef s') (bestDistRef s) \<and> bestPathRef s' \<in> set paths
                  \<and> tour_length (cities s) (bestPathRef s') = Inr (bestDistRef s'))))
       \<and> bestDistRef (aco_init rnd s0) = PInf"
proof (intro conjI)
  from aco_run_spec[OF assms(2,1)]
  show "\<exists>s'. aco_run ces s = Inr s'
            \<and> ((bestPathRef s' = bestPathRef s \<and> bestDistRef s' = bestDistRef s)
               \<or> js_lt (bestDistRef s') (bestDistRef s))"
    by blast
next
  from aco_animate_spec[OF aco_inv_initialized[OF assms(1)] assms(3), of cfg]
  show "\<exists>s' paths. aco_animate cfg e s = Inr (s', paths)
            \<and> ((bestPathRef s' = bestPathRef s \<and> bestDistRef s' = bestDistRef s)
               \<or> (js_lt (bestDistRef s') (bestDistRef s) \<and> bestPathRef s' \<in> set paths
                  \<and> tour_length (cities s) (bestPathRef s') = Inr (bestDistRef s')))"
    by blast
next
  show "bestDistRef (aco_init rnd s0) = PInf" by (simp add: aco_init_def)
qed

theorem best_distance_witness:
  "aco_inv aco0 \<and> draws_ok (draws env1)
   \<and> (\<exists>s'. aco_run [(cfg_of 10, env1), (paused, env0)] aco0 = Inr s'
         \<and> ((bestPathRef s' = bestPathRef aco0 \<and> bestDistRef s' = bestDistRef aco0)
            \<or> js_lt (bestDistRef s') (bestDistRef aco0)))
   \<and> bestDistRef aco0 = PInf"
proof -
  have h1: "aco_inv aco0" unfolding aco0_def by (rule aco_init_inv)
  have d0: "draws_ok (draws env0)" by (simp add: env0_def draws_ok_def)
  have d1: "draws_ok (draws env1)" by (simp add: env1_def draws1_ok)
  have h2: "\<forall>(cfg, e)\<in>set [(cfg_of 10, env1), (paused, env0)]. draws_ok (draws e)"
    using d0 d1 by simp
  from best_distance_never_increases[OF h1 h2 d1, of "cfg_of 10" draws1 aco_blank] h1 d1
  show ?thesis unfolding aco0_def by blast
qed

end
